theory Spec2Isabelle
  imports Complex_Main "HOL-Library.AList" "HOL-Library.Sublist"
begin

section \<open>Exceptions\<close>

text \<open>
  The exceptions that the modelled code raises or lets through. A path is its directory
  and its base name (see the section on the file system).
\<close>

type_synonym path = "string \<times> string"

datatype error =
    AssertionError
  | KeyError string
  | RecursionError
  | FileExistsError path
  | FileNotFoundError path
  | IsADirectoryError path
  | TooManyLinks path
  | SameFileError
  | UnpicklingError
  | IndexError
  | ZeroDivisionError

section \<open>model.py: the evaluating context manager\<close>

text \<open>
  A network is its mode flag \<open>training\<close> (torch's \<open>Module.training\<close>) and whatever else it
  holds. \<open>net.eval()\<close> clears the flag and \<open>net.train()\<close> sets it. The body of the
  \<open>with\<close> statement receives the network (\<open>yield net\<close>) and may mutate it in any way; it
  ends normally (\<open>None\<close>) or raises (\<open>Some e\<close>), and leaves a network state either way.
\<close>

record 'p net =
  training :: bool
  params :: 'p

definition net_eval :: "'p net \<Rightarrow> 'p net" where
  "net_eval n = n\<lparr>training := False\<rparr>"

definition net_train :: "'p net \<Rightarrow> 'p net" where
  "net_train n = n\<lparr>training := True\<rparr>"

text \<open>
  \<^verbatim>\<open>istrain = net.training; try: net.eval(); yield net; finally: if istrain: net.train()\<close>
  The \<open>finally\<close> clause runs on both exits and the exception of the block, if any, goes on
  to the caller.
\<close>

definition evaluating :: "('p net \<Rightarrow> 'e option \<times> 'p net) \<Rightarrow> 'p net \<Rightarrow> 'e option \<times> 'p net" where
  "evaluating block n =
     (let istrain = training n;
          (exc, n1) = block (net_eval n);
          n2 = (if istrain then net_train n1 else n1)
      in (exc, n2))"

text \<open>Two blocks used as concrete inputs: one that calls \<open>net.train()\<close>, one that raises.\<close>

definition block_calls_train :: "nat net \<Rightarrow> string option \<times> nat net" where
  "block_calls_train n = (None, net_train n)"

definition block_raises :: "nat net \<Rightarrow> string option \<times> nat net" where
  "block_raises n = (Some ''boom'', n)"

section \<open>model.py: metric normalisation\<close>

text \<open>
  The values \<open>normalize_item\<close> distinguishes, in the order of its \<open>isinstance\<close> chain:
  a \<open>dict\<close> (insertion-ordered, so an association list), a \<open>list\<close>, a numpy array (shape
  and flat data), a torch tensor (shape, flat data, \<open>requires_grad\<close>), any other iterable
  (a tuple, a \<open>str\<close>, or a set, range or generator given by the sequence it yields), and
  everything else (numbers, \<open>None\<close>, opaque objects).
\<close>

datatype 'n pyval =
    PDict "(string \<times> 'n pyval) list"
  | PList "'n pyval list"
  | NdArray "nat list" "'n list"
  | Tensor "nat list" "'n list" bool
  | PTuple "'n pyval list"
  | PStr string
  | PIter "'n pyval list"
  | PScalar 'n

text \<open>
  \<open>torch.squeeze\<close> drops every dimension of size one. When nothing is left, a well-formed
  tensor holds exactly one element, the one \<open>item()\<close> returns.
\<close>

definition squeeze :: "nat list \<Rightarrow> nat list" where
  "squeeze shape = filter (\<lambda>d. d \<noteq> 1) shape"

text \<open>A well-formed array or tensor holds as many elements as its shape says.\<close>

definition numel :: "nat list \<Rightarrow> nat" where
  "numel shape = prod_list shape"

text \<open>
  A comprehension evaluates its elements from left to right and ends with the first
  exception.
\<close>

fun collect_results :: "(error + 'a) list \<Rightarrow> error + 'a list" where
  "collect_results [] = Inr []"
| "collect_results (r # rs) =
     (case r of
        Inl e \<Rightarrow> Inl e
      | Inr y \<Rightarrow> (case collect_results rs of Inl e \<Rightarrow> Inl e | Inr ys \<Rightarrow> Inr (y # ys)))"

text \<open>
  Lines 37 to 52. A \<open>str\<close> is no \<open>dict\<close>, \<open>list\<close>, array or tensor and it is iterable, so
  it takes the branch of line 49. Iterating it yields its characters, each a \<open>str\<close> of
  length one, for which line 50 calls \<open>normalize_item\<close> again: for a \<open>str\<close> that is not
  empty the call never returns and the interpreter ends it with \<open>RecursionError\<close>
  (\<open>str_never_returns\<close> below derives this from the function with the recursion limit
  written out). The empty \<open>str\<close> becomes the empty tuple.
\<close>

fun normalize_item :: "'n pyval \<Rightarrow> error + 'n pyval" where
  "normalize_item (PDict kvs) =
     (case collect_results
             (map (\<lambda>(k, v). case normalize_item v of Inl e \<Rightarrow> Inl e | Inr w \<Rightarrow> Inr (k, w)) kvs) of
        Inl e \<Rightarrow> Inl e
      | Inr kws \<Rightarrow> Inr (PDict kws))"
| "normalize_item (PList vs) =
     (case collect_results (map normalize_item vs) of
        Inl e \<Rightarrow> Inl e
      | Inr ws \<Rightarrow> Inr (PList ws))"
| "normalize_item (NdArray shape data) = Inr (NdArray shape data)"
| "normalize_item (Tensor shape data g) =
     (if length (squeeze shape) \<noteq> 0 then Inr (Tensor shape data False)
      else Inr (PScalar (hd data)))"
| "normalize_item (PTuple vs) =
     (case collect_results (map normalize_item vs) of
        Inl e \<Rightarrow> Inl e
      | Inr ws \<Rightarrow> Inr (PTuple ws))"
| "normalize_item (PStr s) = (if s = [] then Inr (PTuple []) else Inl RecursionError)"
| "normalize_item (PIter vs) =
     (case collect_results (map normalize_item vs) of
        Inl e \<Rightarrow> Inl e
      | Inr ws \<Rightarrow> Inr (PTuple ws))"
| "normalize_item (PScalar x) = Inr (PScalar x)"

definition normalize :: "'n pyval \<Rightarrow> error + 'n pyval" where
  "normalize metrics = normalize_item metrics"

text \<open>
  The same lines with the interpreter's recursion limit as a budget of nested calls: a
  call with no budget left raises \<open>RecursionError\<close>, and a \<open>str\<close> is iterated as the
  code iterates it.
\<close>

fun normalize_item_within :: "nat \<Rightarrow> 'n pyval \<Rightarrow> error + 'n pyval" where
  "normalize_item_within 0 item = Inl RecursionError"
| "normalize_item_within (Suc n) (PDict kvs) =
     (case collect_results
             (map (\<lambda>(k, v). case normalize_item_within n v of
                                Inl e \<Rightarrow> Inl e | Inr w \<Rightarrow> Inr (k, w)) kvs) of
        Inl e \<Rightarrow> Inl e
      | Inr kws \<Rightarrow> Inr (PDict kws))"
| "normalize_item_within (Suc n) (PList vs) =
     (case collect_results (map (normalize_item_within n) vs) of
        Inl e \<Rightarrow> Inl e
      | Inr ws \<Rightarrow> Inr (PList ws))"
| "normalize_item_within (Suc n) (NdArray shape data) = Inr (NdArray shape data)"
| "normalize_item_within (Suc n) (Tensor shape data g) =
     (if length (squeeze shape) \<noteq> 0 then Inr (Tensor shape data False)
      else Inr (PScalar (hd data)))"
| "normalize_item_within (Suc n) (PTuple vs) =
     (case collect_results (map (normalize_item_within n) vs) of
        Inl e \<Rightarrow> Inl e
      | Inr ws \<Rightarrow> Inr (PTuple ws))"
| "normalize_item_within (Suc n) (PStr s) =
     (case collect_results (map (\<lambda>ch. normalize_item_within n (PStr [ch])) s) of
        Inl e \<Rightarrow> Inl e
      | Inr ws \<Rightarrow> Inr (PTuple ws))"
| "normalize_item_within (Suc n) (PIter vs) =
     (case collect_results (map (normalize_item_within n) vs) of
        Inl e \<Rightarrow> Inl e
      | Inr ws \<Rightarrow> Inr (PTuple ws))"
| "normalize_item_within (Suc n) (PScalar x) = Inr (PScalar x)"

text \<open>How deep the calls nest on a value.\<close>

fun nesting :: "'n pyval \<Rightarrow> nat" where
  "nesting (PDict kvs) = Suc (foldr max (map (\<lambda>(k, v). nesting v) kvs) 0)"
| "nesting (PList vs) = Suc (foldr max (map nesting vs) 0)"
| "nesting (NdArray shape data) = 1"
| "nesting (Tensor shape data g) = 1"
| "nesting (PTuple vs) = Suc (foldr max (map nesting vs) 0)"
| "nesting (PStr s) = 1"
| "nesting (PIter vs) = Suc (foldr max (map nesting vs) 0)"
| "nesting (PScalar x) = 1"


section \<open>The file system seen by train.py\<close>

text \<open>
  A path is its directory and its base name, so \<open>os.path.dirname\<close> and
  \<open>os.path.basename\<close> are the projections and \<open>os.path.join dir name\<close> is the pair
  (base names here hold no slash). A name holds a regular file, whose content is a complete
  serialized checkpoint (\<open>Some c\<close>) or anything else (\<open>None\<close>: a file opened for writing
  and not yet complete, or a file that is no checkpoint), a symbolic link to a name of the
  same directory, or a subdirectory. The file system is an association list; its order
  stands for the arbitrary order of \<open>os.listdir\<close>.
\<close>

datatype 'c node = Regular "'c option" | Symlink string | Directory

type_synonym 'c fs = "(path \<times> 'c node) list"

text \<open>
  Following symbolic links, at most forty levels as the kernel does: the path at which the
  chain ends (it holds a regular file, a directory or nothing), if it ends.
\<close>

fun resolve_path :: "nat \<Rightarrow> 'c fs \<Rightarrow> path \<Rightarrow> path option" where
  "resolve_path 0 fs p = None"
| "resolve_path (Suc k) fs p =
     (case map_of fs p of
        Some (Symlink t) \<Rightarrow> resolve_path k fs (fst p, t)
      | _ \<Rightarrow> Some p)"

definition stat :: "'c fs \<Rightarrow> path \<Rightarrow> 'c node option" where
  "stat fs p = (case resolve_path 40 fs p of None \<Rightarrow> None | Some q \<Rightarrow> map_of fs q)"

text \<open>\<open>os.path.exists\<close> and \<open>os.path.isfile\<close> follow links: a dangling link does not exist.\<close>

definition os_path_exists :: "'c fs \<Rightarrow> path \<Rightarrow> bool" where
  "os_path_exists fs p = (stat fs p \<noteq> None)"

definition os_path_isfile :: "'c fs \<Rightarrow> path \<Rightarrow> bool" where
  "os_path_isfile fs p = (case stat fs p of Some (Regular c) \<Rightarrow> True | _ \<Rightarrow> False)"

definition os_path_isdir :: "'c fs \<Rightarrow> path \<Rightarrow> bool" where
  "os_path_isdir fs p = (case stat fs p of Some Directory \<Rightarrow> True | _ \<Rightarrow> False)"

text \<open>\<open>os.remove\<close> and \<open>os.unlink\<close> are one function: they remove the name itself.\<close>

definition os_remove :: "'c fs \<Rightarrow> path \<Rightarrow> error + 'c fs" where
  "os_remove fs p =
     (case map_of fs p of
        None \<Rightarrow> Inl (FileNotFoundError p)
      | Some Directory \<Rightarrow> Inl (IsADirectoryError p)
      | Some n \<Rightarrow> Inr (AList.delete p fs))"

definition os_symlink :: "string \<Rightarrow> path \<Rightarrow> 'c fs \<Rightarrow> error + 'c fs" where
  "os_symlink target p fs =
     (case map_of fs p of
        None \<Rightarrow> Inr (fs @ [(p, Symlink target)])
      | Some n \<Rightarrow> Inl (FileExistsError p))"

text \<open>Opening a path for writing goes through links and creates or truncates the file.\<close>

definition write_file :: "'c fs \<Rightarrow> path \<Rightarrow> 'c option \<Rightarrow> error + 'c fs" where
  "write_file fs p content =
     (case resolve_path 40 fs p of
        None \<Rightarrow> Inl (TooManyLinks p)
      | Some q \<Rightarrow>
          (case map_of fs q of
             Some Directory \<Rightarrow> Inl (IsADirectoryError q)
           | _ \<Rightarrow> Inr (AList.update q (Regular content) fs)))"

definition read_file :: "'c fs \<Rightarrow> path \<Rightarrow> error + 'c option" where
  "read_file fs p =
     (case stat fs p of
        None \<Rightarrow> Inl (FileNotFoundError p)
      | Some Directory \<Rightarrow> Inl (IsADirectoryError p)
      | Some (Regular content) \<Rightarrow> Inr content
      | Some (Symlink t) \<Rightarrow> Inl (TooManyLinks p))"

text \<open>
  \<open>torch.save(obj, path)\<close> opens \<open>path\<close> itself for writing and streams the archive into
  it: the file is there, incomplete, before it is there, complete. Both states are returned.
\<close>

definition torch_save :: "'c fs \<Rightarrow> path \<Rightarrow> 'c \<Rightarrow> error + ('c fs \<times> 'c fs)" where
  "torch_save fs p c =
     (case write_file fs p None of
        Inl e \<Rightarrow> Inl e
      | Inr fs1 \<Rightarrow>
          (case write_file fs1 p (Some c) of
             Inl e \<Rightarrow> Inl e
           | Inr fs2 \<Rightarrow> Inr (fs1, fs2)))"

definition torch_load :: "'c fs \<Rightarrow> path \<Rightarrow> error + 'c" where
  "torch_load fs p =
     (case read_file fs p of
        Inl e \<Rightarrow> Inl e
      | Inr None \<Rightarrow> Inl UnpicklingError
      | Inr (Some c) \<Rightarrow> Inr c)"

definition path_join :: "string \<Rightarrow> string \<Rightarrow> string" where
  "path_join a b = (if a = [] \<or> last a = CHR ''/'' then a @ b else a @ ''/'' @ b)"

text \<open>
  \<open>shutil.copy2(src, dst)\<close>: into the directory if \<open>dst\<close> is one, refused if both are the
  same file, else the content of \<open>src\<close> written to \<open>dst\<close>.
\<close>

definition shutil_copy2 :: "'c fs \<Rightarrow> path \<Rightarrow> path \<Rightarrow> error + 'c fs" where
  "shutil_copy2 fs src dst0 =
     (let dst = (if os_path_isdir fs dst0 then (path_join (fst dst0) (snd dst0), snd src) else dst0)
      in if os_path_exists fs src \<and> os_path_exists fs dst
            \<and> resolve_path 40 fs src = resolve_path 40 fs dst then Inl SameFileError
         else (case read_file fs src of
                 Inl e \<Rightarrow> Inl e
               | Inr content \<Rightarrow> write_file fs dst content))"

definition os_listdir :: "'c fs \<Rightarrow> string \<Rightarrow> string list" where
  "os_listdir fs d = map (snd \<circ> fst) (filter (\<lambda>(p, n). fst p = d) fs)"

definition shutil_rmtree :: "'c fs \<Rightarrow> string \<Rightarrow> 'c fs" where
  "shutil_rmtree fs d = filter (\<lambda>(p, n). \<not> (fst p = d \<or> prefix (path_join d []) (fst p))) fs"


section \<open>train.py: checkpoint records, saving and loading\<close>

text \<open>
  The states of the generators, of the model, the optimizer, the extra modules and the
  scaler are opaque (\<open>'r\<close>, \<open>'s\<close>). \<open>torch_cuda\<close> is there only when CUDA is available.
  The extra modules are cells under their keys: a cell holds what the module's
  \<open>state_dict()\<close> returns, and \<open>load_state_dict(state)\<close> stores its argument, \<open>None\<close>
  included. In the live process \<open>modules = None\<close> is \<open>extra_modules=None\<close> and
  \<open>amp_sd = None\<close> is \<open>amp=None\<close>. Losses are real numbers (no NaN, no infinity).
\<close>

record 'r rng_state =
  python :: 'r
  numpy :: 'r
  torch :: 'r
  torch_cuda :: "'r option"

record ('s, 'r) checkpoint =
  rng_state :: "'r rng_state"
  state_dict :: 's
  optimizer :: 's
  step :: int
  loss :: real
  ext :: "(string \<times> 's option) list"
  amp :: "'s option"

record ('s, 'r) world =
  rng :: "'r rng_state"
  model_sd :: 's
  optim_sd :: 's
  modules :: "(string \<times> 's option) list option"
  amp_sd :: "'s option"

type_synonym ('s, 'r) ckfs = "('s, 'r) checkpoint fs"

text \<open>Lines 10 to 32: the dictionary that is saved.\<close>

definition checkpoint_dict ::
  "('s, 'r) world \<Rightarrow> int \<Rightarrow> real \<Rightarrow> bool \<Rightarrow> bool \<Rightarrow> ('s, 'r) checkpoint" where
  "checkpoint_dict w stp lss with_extra with_amp =
     \<lparr>rng_state = rng w,
      state_dict = model_sd w,
      optimizer = optim_sd w,
      step = stp,
      loss = lss,
      ext = (case (if with_extra then modules w else None) of
               None \<Rightarrow> []
             | Some ms \<Rightarrow> fold (\<lambda>(key, m). AList.update key m) ms []),
      amp = (if with_amp then amp_sd w else None)\<rparr>"

text \<open>
  Lines 34 to 44, as the list of the file-system states after each system call, with the
  exception that ended the call, if any: \<open>torch.save\<close> on the path itself, then
  \<open>os.path.exists\<close>, \<open>os.unlink\<close> and \<open>os.symlink\<close> for the alias.
\<close>

definition save_checkpoint_trace ::
  "'c fs \<Rightarrow> path \<Rightarrow> 'c \<Rightarrow> string option \<Rightarrow> error option \<times> 'c fs list" where
  "save_checkpoint_trace fs checkpoint_path c symlink_name =
     (case torch_save fs checkpoint_path c of
        Inl e \<Rightarrow> (Some e, [])
      | Inr (fs1, fs2) \<Rightarrow>
          (case symlink_name of
             None \<Rightarrow> (None, [fs1, fs2])
           | Some name \<Rightarrow>
               (let checkpoint_dir = fst checkpoint_path;
                    checkpoint_name = snd checkpoint_path;
                    symlink_path = (checkpoint_dir, name)
                in if os_path_exists fs2 symlink_path then
                     (case os_remove fs2 symlink_path of
                        Inl e \<Rightarrow> (Some e, [fs1, fs2])
                      | Inr fs3 \<Rightarrow>
                          (case os_symlink checkpoint_name symlink_path fs3 of
                             Inl e \<Rightarrow> (Some e, [fs1, fs2, fs3])
                           | Inr fs4 \<Rightarrow> (None, [fs1, fs2, fs3, fs4])))
                   else
                     (case os_symlink checkpoint_name symlink_path fs2 of
                        Inl e \<Rightarrow> (Some e, [fs1, fs2])
                      | Inr fs4 \<Rightarrow> (None, [fs1, fs2, fs4])))))"

definition save_checkpoint ::
  "'c fs \<Rightarrow> path \<Rightarrow> 'c \<Rightarrow> string option \<Rightarrow> error option \<times> 'c fs" where
  "save_checkpoint fs checkpoint_path c symlink_name =
     (case save_checkpoint_trace fs checkpoint_path c symlink_name of
        (e, states) \<Rightarrow> (e, last (fs # states)))"

text \<open>
  What the claim of an atomic save asks of the states a save goes through, in the spec's
  words: the canonical name never shows an incomplete file, and the alias resolves to a file in
  every state.
\<close>

definition never_partial :: "'c fs list \<Rightarrow> path \<Rightarrow> bool" where
  "never_partial states p = list_all (\<lambda>fs. map_of fs p \<noteq> Some (Regular None)) states"

definition alias_always_resolves :: "'c fs list \<Rightarrow> path \<Rightarrow> bool" where
  "alias_always_resolves states alias = list_all (\<lambda>fs. os_path_isfile fs alias) states"

text \<open>Lines 58 to 65: the generators take the saved states; CUDA's only if both have one.\<close>

definition restore_rng :: "'r rng_state \<Rightarrow> 'r rng_state \<Rightarrow> 'r rng_state" where
  "restore_rng saved live =
     \<lparr>python = python saved,
      numpy = numpy saved,
      torch = torch saved,
      torch_cuda = (if torch_cuda live \<noteq> None \<and> torch_cuda saved \<noteq> None
                    then torch_cuda saved else torch_cuda live)\<rparr>"

text \<open>
  Lines 74 to 78: the loop over the extra modules. \<open>dict.get\<close> gives \<open>None\<close> for a missing
  key (and for a key stored with \<open>None\<close>). The modules before the one that fails are
  loaded already.
\<close>

definition dict_get :: "(string \<times> 's option) list \<Rightarrow> string \<Rightarrow> 's option" where
  "dict_get d key = (case map_of d key of None \<Rightarrow> None | Some v \<Rightarrow> v)"

fun load_extra_modules ::
  "bool \<Rightarrow> (string \<times> 's option) list \<Rightarrow> (string \<times> 's option) list
     \<Rightarrow> error option \<times> (string \<times> 's option) list" where
  "load_extra_modules strict d [] = (None, [])"
| "load_extra_modules strict d ((key, m) # ms) =
     (let state = dict_get d key
      in if strict \<and> state = None then (Some (KeyError key), (key, m) # ms)
         else (case load_extra_modules strict d ms of
                 (e, ms') \<Rightarrow> (e, (key, state) # ms')))"

record load_args =
  with_model :: bool
  with_optimizer :: bool
  with_extra :: bool
  strict :: bool
  with_amp :: bool
  load_rnd_state :: bool

text \<open>Lines 58 to 71: the generators, the model and the optimizer.\<close>

definition restore_states ::
  "load_args \<Rightarrow> ('s, 'r) checkpoint \<Rightarrow> ('s, 'r) world \<Rightarrow> ('s, 'r) world" where
  "restore_states args c w =
     (let w1 = (if load_rnd_state args
                then w\<lparr>rng := restore_rng (rng_state c) (rng w)\<rparr> else w);
          w2 = (if with_model args then w1\<lparr>model_sd := state_dict c\<rparr> else w1)
      in if with_optimizer args then w2\<lparr>optim_sd := optimizer c\<rparr> else w2)"

text \<open>Lines 73 to 78.\<close>

definition restore_extra ::
  "load_args \<Rightarrow> ('s, 'r) checkpoint \<Rightarrow> ('s, 'r) world \<Rightarrow> error option \<times> ('s, 'r) world" where
  "restore_extra args c w =
     (case (if with_extra args then modules w else None) of
        None \<Rightarrow> (None, w)
      | Some ms \<Rightarrow>
          (case load_extra_modules (strict args) (ext c) ms of
             (e, ms') \<Rightarrow> (e, w\<lparr>modules := Some ms'\<rparr>)))"

text \<open>Lines 80 and 81.\<close>

definition restore_amp ::
  "load_args \<Rightarrow> ('s, 'r) checkpoint \<Rightarrow> ('s, 'r) world \<Rightarrow> ('s, 'r) world" where
  "restore_amp args c w =
     (if with_amp args \<and> amp_sd w \<noteq> None \<and> amp c \<noteq> None then w\<lparr>amp_sd := amp c\<rparr> else w)"

definition load_checkpoint ::
  "load_args \<Rightarrow> ('s, 'r) ckfs \<Rightarrow> path \<Rightarrow> ('s, 'r) world
     \<Rightarrow> (error + int \<times> real) \<times> ('s, 'r) world" where
  "load_checkpoint args fs checkpoint_path w =
     (if \<not> os_path_isfile fs checkpoint_path then (Inl AssertionError, w)
      else
        (case torch_load fs checkpoint_path of
           Inl e \<Rightarrow> (Inl e, w)
         | Inr c \<Rightarrow>
             (case restore_extra args c (restore_states args c w) of
                (Some err, w4) \<Rightarrow> (Inl err, w4)
              | (None, w4) \<Rightarrow> (Inr (step c, loss c), restore_amp args c w4))))"

section \<open>train.py: the names of the checkpoint files\<close>

text \<open>\<open>f'checkpoint_{epoch}.pth'\<close>: the decimal form of a Python integer between two literals.\<close>

fun str_nat :: "nat \<Rightarrow> string" where
  "str_nat n =
     (if n < 10 then [''0123456789'' ! n]
      else str_nat (n div 10) @ [''0123456789'' ! (n mod 10)])"

definition str_int :: "int \<Rightarrow> string" where
  "str_int i = (if i < 0 then CHR ''-'' # str_nat (nat (- i)) else str_nat (nat i))"

definition checkpoint_file_name :: "int \<Rightarrow> string" where
  "checkpoint_file_name epoch = ''checkpoint_'' @ str_int epoch @ ''.pth''"

text \<open>
  \<open>re.compile(r'^checkpoint_(\d+).pth$').match(x)\<close> and \<open>int(m.groups()[0])\<close>, on ASCII
  names. The dot of the pattern is not escaped: it stands for any one character but a
  newline. \<open>$\<close> also matches before one newline that ends the name. The name is the
  prefix, at least one digit, one character and \<open>pth\<close>, so the group is all but the last
  four characters of what follows the prefix.
\<close>

definition is_digit :: "char \<Rightarrow> bool" where
  "is_digit ch = (ch \<in> set ''0123456789'')"

definition int_of_digits :: "string \<Rightarrow> nat" where
  "int_of_digits ds = foldl (\<lambda>acc ch. 10 * acc + (of_char ch - 48)) 0 ds"

definition checkpoint_regex_match :: "string \<Rightarrow> nat option" where
  "checkpoint_regex_match x =
     (let body = (if x \<noteq> [] \<and> last x = CHR 0x0A then butlast x else x);
          n = length body;
          digits = take (n - 15) (drop 11 body)
      in if 16 \<le> n \<and> take 11 body = ''checkpoint_'' \<and> drop (n - 3) body = ''pth''
            \<and> body ! (n - 4) \<noteq> CHR 0x0A \<and> list_all is_digit digits
         then Some (int_of_digits digits) else None)"

section \<open>train.py: the trainer\<close>

text \<open>
  The arguments of \<open>train\<close> that the bookkeeping reads. \<open>has_val\<close> is
  \<open>val_dataset is not None\<close>. The numerical work is done by collaborators and is taken as
  three functions of the live process, each returning the \<open>loss\<close> entry of its metrics:
  the inference pass of a cold start (lines 265 to 294), one epoch over the training set
  (lines 317 to 353, for the value \<open>epoch\<close> has after line 348) and one validation pass
  (lines 389 to 398).
\<close>

record config =
  epochs :: int
  checkpoint_path :: "path option"
  training_dir :: "string option"
  has_val :: bool
  epochs_per_summary :: int
  epochs_per_checkpoint :: int
  checkpoints_limit :: "int option"

record ('s, 'r) collaborators =
  epoch0_pass :: "('s, 'r) world \<Rightarrow> real \<times> ('s, 'r) world"
  train_epoch :: "int \<Rightarrow> ('s, 'r) world \<Rightarrow> real \<times> ('s, 'r) world"
  validation_pass :: "int \<Rightarrow> ('s, 'r) world \<Rightarrow> real \<times> ('s, 'r) world"

text \<open>
  The variables of \<open>train\<close> that outlive a statement. \<open>checkpoint_path_var\<close> is the
  variable \<open>checkpoint_path\<close>, which the function assigns to; \<open>epoch0_ran\<close> records that
  the cold-start pass of lines 265 to 311 was executed.
\<close>

record ('s, 'r) train_state =
  files :: "('s, 'r) ckfs"
  live :: "('s, 'r) world"
  checkpoints_history :: "string list"
  checkpoint_best_data :: "int \<times> real"
  checkpoint_path_var :: "path option"
  epoch_offset :: int
  last_loss :: real
  epoch0_ran :: bool

text \<open>Lines 170 and 171.\<close>

definition clamp_limit :: "int option \<Rightarrow> int option" where
  "clamp_limit limit = (case limit of None \<Rightarrow> None | Some l \<Rightarrow> Some (max 1 l))"

text \<open>The two calls of \<open>load_checkpoint\<close>, lines 199 and 259.\<close>

definition resume_args :: load_args where
  "resume_args = \<lparr>with_model = True, with_optimizer = True, with_extra = True,
     strict = False, with_amp = True, load_rnd_state = True\<rparr>"

definition best_args :: load_args where
  "best_args = \<lparr>with_model = False, with_optimizer = False, with_extra = False,
     strict = False, with_amp = False, load_rnd_state = False\<rparr>"

definition checkpoint_dir_of :: "config \<Rightarrow> string" where
  "checkpoint_dir_of cfg =
     path_join (case training_dir cfg of None \<Rightarrow> ''./training'' | Some d \<Rightarrow> d) ''ckpts''"

definition summary_dir_of :: "config \<Rightarrow> string" where
  "summary_dir_of cfg =
     path_join (case training_dir cfg of None \<Rightarrow> ''./training'' | Some d \<Rightarrow> d) ''summary''"

definition checkpoint_best_path :: "config \<Rightarrow> path" where
  "checkpoint_best_path cfg = (checkpoint_dir_of cfg, ''checkpoint_best.pth'')"

definition checkpoint_last_name :: string where
  "checkpoint_last_name = ''checkpoint_last.pth''"

text \<open>
  Lines 223 to 229: the regular files of the directory whose names match, in ascending
  order of the number in the name (\<open>sorted\<close> is stable, as \<open>sort_key\<close> is).
\<close>

definition scan_history :: "'c fs \<Rightarrow> string \<Rightarrow> string list" where
  "scan_history fs checkpoint_dir =
     (let listed = filter (\<lambda>ckpt. os_path_isfile fs (checkpoint_dir, ckpt))
                     (os_listdir fs checkpoint_dir)
      in if listed = [] then []
         else map snd (sort_key fst
                (List.map_filter
                   (\<lambda>x. case checkpoint_regex_match x of None \<Rightarrow> None | Some k \<Rightarrow> Some (k, x))
                   listed)))"

text \<open>
  Lines 237 to 240: \<open>while len(checkpoints_history) > checkpoints_limit\<close>. Each turn
  assigns \<open>checkpoint_path\<close>, deletes the first entry and removes its file, in this order.
\<close>

fun prune_to_limit ::
  "int \<Rightarrow> string \<Rightarrow> 'c fs \<Rightarrow> string list \<Rightarrow> path option
     \<Rightarrow> error option \<times> 'c fs \<times> string list \<times> path option" where
  "prune_to_limit lmt d fs [] cp =
     (if 0 > lmt then (Some IndexError, fs, [], cp) else (None, fs, [], cp))"
| "prune_to_limit lmt d fs (h # hs) cp =
     (if int (length (h # hs)) > lmt then
        (case os_remove fs (d, h) of
           Inl e \<Rightarrow> (Some e, fs, hs, Some (d, h))
         | Inr fs' \<Rightarrow> prune_to_limit lmt d fs' hs (Some (d, h)))
      else (None, fs, h # hs, cp))"

definition bootstrap_prune ::
  "int option \<Rightarrow> string \<Rightarrow> 'c fs \<Rightarrow> string list \<Rightarrow> path option
     \<Rightarrow> error option \<times> 'c fs \<times> string list \<times> path option" where
  "bootstrap_prune limit d fs history cp =
     (case limit of
        None \<Rightarrow> (None, fs, history, cp)
      | Some lmt \<Rightarrow> prune_to_limit lmt d fs history cp)"

text \<open>
  Lines 367 to 371: the new name is appended and, under a limit, at most one entry is
  evicted, the first.
\<close>

definition append_and_prune ::
  "int option \<Rightarrow> string \<Rightarrow> 'c fs \<Rightarrow> string list \<Rightarrow> string
     \<Rightarrow> error option \<times> 'c fs \<times> string list" where
  "append_and_prune limit d fs history name =
     (let h = history @ [name]
      in case limit of
           None \<Rightarrow> (None, fs, h)
         | Some lmt \<Rightarrow>
             if int (length h) > lmt then
               (case os_remove fs (d, hd h) of
                  Inl e \<Rightarrow> (Some e, fs, tl h)
                | Inr fs' \<Rightarrow> (None, fs', tl h))
             else (None, fs, h))"

text \<open>Lines 198 to 203.\<close>

definition initial_load ::
  "config \<Rightarrow> ('s, 'r) ckfs \<Rightarrow> ('s, 'r) world \<Rightarrow> (error + int \<times> real) \<times> ('s, 'r) world" where
  "initial_load cfg fs w =
     (case checkpoint_path cfg of
        Some p \<Rightarrow> load_checkpoint resume_args fs p w
      | None \<Rightarrow> (Inr (0, - 1), w))"

text \<open>Lines 214 to 218: a cold start deletes the checkpoints and summaries of a previous run.\<close>

definition discard_previous_run :: "config \<Rightarrow> 'c fs \<Rightarrow> 'c fs" where
  "discard_previous_run cfg fs =
     (if checkpoint_path cfg = None
      then shutil_rmtree (shutil_rmtree fs (checkpoint_dir_of cfg)) (summary_dir_of cfg)
      else fs)"

text \<open>
  The state once \<open>epoch_offset\<close> and \<open>loss\<close> are assigned (line 201 or 203). The history
  and the best pointer are assigned later; until then they stand as the empty list and as
  the pair of these two values.
\<close>

definition initial_state ::
  "config \<Rightarrow> ('s, 'r) ckfs \<Rightarrow> ('s, 'r) world \<Rightarrow> int \<Rightarrow> real \<Rightarrow> ('s, 'r) train_state" where
  "initial_state cfg fs w off l =
     \<lparr>files = fs, live = w, checkpoints_history = [], checkpoint_best_data = (off, l),
      checkpoint_path_var = checkpoint_path cfg, epoch_offset = off, last_loss = l,
      epoch0_ran = False\<rparr>"

text \<open>Lines 256 to 262, entered when \<open>checkpoint_path\<close> is not \<open>None\<close> at line 255.\<close>

definition seed_best_on_resume ::
  "config \<Rightarrow> path \<Rightarrow> ('s, 'r) train_state \<Rightarrow> error option \<times> ('s, 'r) train_state" where
  "seed_best_on_resume cfg cp st =
     (if os_path_exists (files st) (checkpoint_best_path cfg) then
        (case load_checkpoint best_args (files st) (checkpoint_best_path cfg) (live st) of
           (Inl e, w) \<Rightarrow> (Some e, st\<lparr>live := w\<rparr>)
         | (Inr data, w) \<Rightarrow> (None, st\<lparr>live := w, checkpoint_best_data := data\<rparr>))
      else
        (case shutil_copy2 (files st) cp (checkpoint_best_path cfg) of
           Inl e \<Rightarrow> (Some e, st\<lparr>checkpoint_best_data := (epoch_offset st, last_loss st)\<rparr>)
         | Inr fs' \<Rightarrow>
             (None, st\<lparr>checkpoint_best_data := (epoch_offset st, last_loss st), files := fs'\<rparr>)))"

text \<open>Lines 265 to 311, entered when \<open>checkpoint_path\<close> is \<open>None\<close> at line 255.\<close>

definition cold_start ::
  "config \<Rightarrow> ('s, 'r) collaborators \<Rightarrow> ('s, 'r) train_state
     \<Rightarrow> error option \<times> ('s, 'r) train_state" where
  "cold_start cfg col st =
     (let (l, w) = epoch0_pass col (live st);
          h = checkpoints_history st @ [''checkpoint_0.pth''];
          cp = (checkpoint_dir_of cfg, last h);
          st1 = st\<lparr>live := w, last_loss := l, checkpoints_history := h,
                   checkpoint_path_var := Some cp, epoch0_ran := True\<rparr>
      in case save_checkpoint (files st) cp (checkpoint_dict w 0 l True True)
                (Some checkpoint_last_name) of
           (Some e, fs1) \<Rightarrow> (Some e, st1\<lparr>files := fs1\<rparr>)
         | (None, fs1) \<Rightarrow>
             (case shutil_copy2 fs1 cp (checkpoint_best_path cfg) of
                Inl e \<Rightarrow> (Some e, st1\<lparr>files := fs1, checkpoint_best_data := (0, l)\<rparr>)
              | Inr fs2 \<Rightarrow> (None, st1\<lparr>files := fs2, checkpoint_best_data := (0, l)\<rparr>)))"

text \<open>
  Lines 255 to 311, from what the pruning loop left: the exception it ended with, if any,
  the file system, the history and the variable \<open>checkpoint_path\<close>.
\<close>

definition seed_best ::
  "config \<Rightarrow> ('s, 'r) collaborators \<Rightarrow> ('s, 'r) world \<Rightarrow> int \<Rightarrow> real
     \<Rightarrow> error option \<times> ('s, 'r) ckfs \<times> string list \<times> path option
     \<Rightarrow> error option \<times> ('s, 'r) train_state" where
  "seed_best cfg col w off l pruned =
     (case pruned of
        (e, fs2, h, cp) \<Rightarrow>
          (let st = (initial_state cfg fs2 w off l)
                      \<lparr>checkpoints_history := h, checkpoint_path_var := cp\<rparr>
           in case e of
                Some err \<Rightarrow> (Some err, st)
              | None \<Rightarrow>
                  (case cp of
                     Some p \<Rightarrow> seed_best_on_resume cfg p st
                   | None \<Rightarrow> cold_start cfg col st)))"

text \<open>Lines 170 to 311: everything before the epoch loop.\<close>

definition train_setup ::
  "config \<Rightarrow> ('s, 'r) collaborators \<Rightarrow> ('s, 'r) ckfs \<Rightarrow> ('s, 'r) world
     \<Rightarrow> error option \<times> ('s, 'r) train_state" where
  "train_setup cfg col fs w =
     (case initial_load cfg fs w of
        (Inl e, w1) \<Rightarrow> (Some e, initial_state cfg fs w1 0 (- 1))
      | (Inr (off, l), w1) \<Rightarrow>
          (let fs1 = discard_previous_run cfg fs;
               d = checkpoint_dir_of cfg;
               h0 = scan_history fs1 d
           in seed_best cfg col w1 off l
                (bootstrap_prune (clamp_limit (checkpoints_limit cfg)) d fs1 h0
                   (checkpoint_path cfg))))"

text \<open>Lines 367 to 385: a checkpoint is due for \<open>epoch\<close> with training loss \<open>l\<close>.\<close>

definition checkpoint_due ::
  "config \<Rightarrow> int \<Rightarrow> real \<Rightarrow> ('s, 'r) train_state \<Rightarrow> error option \<times> ('s, 'r) train_state" where
  "checkpoint_due cfg epoch l st =
     (let d = checkpoint_dir_of cfg
      in case append_and_prune (clamp_limit (checkpoints_limit cfg)) d (files st)
                (checkpoints_history st) (checkpoint_file_name epoch) of
           (Some e, fs1, h) \<Rightarrow> (Some e, st\<lparr>files := fs1, checkpoints_history := h\<rparr>)
         | (None, fs1, h) \<Rightarrow>
             if h = [] then (Some IndexError, st\<lparr>files := fs1, checkpoints_history := h\<rparr>)
             else
               (let cp = (d, last h);
                    st1 = st\<lparr>checkpoints_history := h, checkpoint_path_var := Some cp\<rparr>
                in case save_checkpoint fs1 cp (checkpoint_dict (live st) epoch l True True)
                          (Some checkpoint_last_name) of
                     (Some e, fs2) \<Rightarrow> (Some e, st1\<lparr>files := fs2\<rparr>)
                   | (None, fs2) \<Rightarrow>
                       if \<not> has_val cfg \<and> snd (checkpoint_best_data st) \<ge> l then
                         (case shutil_copy2 fs2 cp (checkpoint_best_path cfg) of
                            Inl e \<Rightarrow>
                              (Some e, st1\<lparr>files := fs2, checkpoint_best_data := (epoch, l)\<rparr>)
                          | Inr fs3 \<Rightarrow>
                              (None, st1\<lparr>files := fs3, checkpoint_best_data := (epoch, l)\<rparr>))
                       else (None, st1\<lparr>files := fs2\<rparr>)))"

text \<open>Lines 389 to 409: the validation pass and the promotion on its loss.\<close>

definition validation_due ::
  "config \<Rightarrow> ('s, 'r) collaborators \<Rightarrow> int \<Rightarrow> ('s, 'r) train_state
     \<Rightarrow> error option \<times> ('s, 'r) train_state" where
  "validation_due cfg col epoch st =
     (let (vl, w) = validation_pass col epoch (live st);
          st1 = st\<lparr>live := w, last_loss := vl\<rparr>
      in if snd (checkpoint_best_data st) \<ge> vl then
           (case save_checkpoint (files st) (checkpoint_best_path cfg)
                   (checkpoint_dict w epoch vl True True) None of
              (e, fs1) \<Rightarrow> (e, st1\<lparr>files := fs1, checkpoint_best_data := (epoch, vl)\<rparr>))
         else (None, st1))"

text \<open>
  Lines 316 to 409: one turn of the epoch loop, for the value \<open>e0\<close> that \<open>range\<close> gives.
  \<open>epoch % 0\<close> raises.
\<close>

definition epoch_body ::
  "config \<Rightarrow> ('s, 'r) collaborators \<Rightarrow> int \<Rightarrow> ('s, 'r) train_state
     \<Rightarrow> error option \<times> ('s, 'r) train_state" where
  "epoch_body cfg col e0 st =
     (let epoch = e0 + 1;
          (l, w) = train_epoch col epoch (live st);
          st1 = st\<lparr>live := w, last_loss := l\<rparr>
      in if epochs_per_summary cfg = 0 then (Some ZeroDivisionError, st1)
         else if epochs_per_checkpoint cfg = 0 then (Some ZeroDivisionError, st1)
         else
           (case (if epoch mod epochs_per_checkpoint cfg = 0
                  then checkpoint_due cfg epoch l st1 else (None, st1)) of
              (Some e, st2) \<Rightarrow> (Some e, st2)
            | (None, st2) \<Rightarrow>
                if has_val cfg \<and> epoch mod epochs_per_summary cfg = 0
                then validation_due cfg col epoch st2 else (None, st2)))"

fun run_epochs ::
  "config \<Rightarrow> ('s, 'r) collaborators \<Rightarrow> int list \<Rightarrow> ('s, 'r) train_state
     \<Rightarrow> error option \<times> ('s, 'r) train_state" where
  "run_epochs cfg col [] st = (None, st)"
| "run_epochs cfg col (e0 # es) st =
     (case epoch_body cfg col e0 st of
        (Some e, st') \<Rightarrow> (Some e, st')
      | (None, st') \<Rightarrow> run_epochs cfg col es st')"

text \<open>\<open>for epoch in range(epoch_offset, epochs)\<close> after the setup.\<close>

definition train ::
  "config \<Rightarrow> ('s, 'r) collaborators \<Rightarrow> ('s, 'r) ckfs \<Rightarrow> ('s, 'r) world
     \<Rightarrow> error option \<times> ('s, 'r) train_state" where
  "train cfg col fs w =
     (case train_setup cfg col fs w of
        (Some e, st) \<Rightarrow> (Some e, st)
      | (None, st) \<Rightarrow> run_epochs cfg col [epoch_offset st..epochs cfg - 1] st)"

section \<open>Notions of the properties\<close>

text \<open>
  Ordering checkpoint names by the step in the name, as the spec's retention rule speaks
  of it: \<open>newest_by_step removed kept\<close> says that no evicted entry is newer than a kept one.
\<close>

definition step_le :: "string \<Rightarrow> string \<Rightarrow> bool" where
  "step_le x y =
     (case (checkpoint_regex_match x, checkpoint_regex_match y) of
        (Some a, Some b) \<Rightarrow> a \<le> b
      | _ \<Rightarrow> False)"

definition ascending_by_step :: "string list \<Rightarrow> bool" where
  "ascending_by_step h = sorted_wrt step_le h"

definition newest_by_step :: "string list \<Rightarrow> string list \<Rightarrow> bool" where
  "newest_by_step removed kept = list_all (\<lambda>x. list_all (step_le x) kept) removed"

text \<open>A path that is free or holds a regular file; a name that \<open>os.remove\<close> accepts.\<close>

definition plain_target :: "'c fs \<Rightarrow> path \<Rightarrow> bool" where
  "plain_target fs p =
     (case map_of fs p of None \<Rightarrow> True | Some (Regular x) \<Rightarrow> True | _ \<Rightarrow> False)"

definition removable :: "'c fs \<Rightarrow> path \<Rightarrow> bool" where
  "removable fs p =
     (case map_of fs p of None \<Rightarrow> False | Some Directory \<Rightarrow> False | Some n \<Rightarrow> True)"

text \<open>Every path but the two a save may touch is as it was.\<close>

definition others_untouched :: "'c fs \<Rightarrow> 'c fs \<Rightarrow> path \<Rightarrow> string option \<Rightarrow> bool" where
  "others_untouched fs fs' p symlink_name =
     (\<forall>q. q \<noteq> p \<and> Some q \<noteq> map_option (Pair (fst p)) symlink_name
          \<longrightarrow> map_of fs' q = map_of fs q)"

section \<open>Concrete inputs\<close>

definition ck :: "int \<Rightarrow> real \<Rightarrow> nat \<Rightarrow> (nat, nat) checkpoint" where
  "ck s l r = \<lparr>rng_state = \<lparr>python = r, numpy = r, torch = r, torch_cuda = None\<rparr>,
      state_dict = 0, optimizer = 0, step = s, loss = l, ext = [], amp = None\<rparr>"

definition w0 :: "(nat, nat) world" where
  "w0 = \<lparr>rng = \<lparr>python = 1, numpy = 2, torch = 3, torch_cuda = None\<rparr>,
         model_sd = 0, optim_sd = 0, modules = None, amp_sd = None\<rparr>"

definition w_ext :: "(nat, nat) world" where
  "w_ext = w0\<lparr>modules := Some [(''ema'', Some 5)]\<rparr>"

text \<open>Training losses 5, 3, 3, 4 for the epochs 1 to 4, as in the spec's example.\<close>

definition col0 :: "(nat, nat) collaborators" where
  "col0 = \<lparr>epoch0_pass = (\<lambda>w. (7, w)),
     train_epoch = (\<lambda>e w. (if e = 1 then 5 else if e = 4 then 4 else 3, w)),
     validation_pass = (\<lambda>e w. (if e = 1 then 5 else if e = 4 then 4 else 3, w))\<rparr>"

definition fs_one :: "(nat, nat) ckfs" where
  "fs_one = [((''ckpts'', ''checkpoint_1.pth''), Regular (Some (ck 1 1 7))),
             ((''ckpts'', ''checkpoint_last.pth''), Symlink ''checkpoint_1.pth'')]"

definition fs_three :: "(nat, nat) ckfs" where
  "fs_three =
     [((''t/ckpts'', ''checkpoint_10.pth''), Regular (Some (ck 10 2 9))),
      ((''t/ckpts'', ''checkpoint_8.pth''), Regular (Some (ck 8 2 7))),
      ((''t/ckpts'', ''checkpoint_9.pth''), Regular (Some (ck 9 2 8)))]"

text \<open>
  A run that resumes from step 3 while the checkpoint directory holds the steps 9 and 10
  of an earlier run, and its best checkpoint.
\<close>

definition fs_resume :: "(nat, nat) ckfs" where
  "fs_resume =
     [((''run'', ''checkpoint_3.pth''), Regular (Some (ck 3 1 7))),
      ((''t/ckpts'', ''checkpoint_10.pth''), Regular (Some (ck 10 2 9))),
      ((''t/ckpts'', ''checkpoint_9.pth''), Regular (Some (ck 9 2 8))),
      ((''t/ckpts'', ''checkpoint_best.pth''), Regular (Some (ck 2 (1 / 2) 5)))]"

definition cfg_resume :: config where
  "cfg_resume = \<lparr>epochs = 4, checkpoint_path = Some (''run'', ''checkpoint_3.pth''),
     training_dir = Some ''t'', has_val = False,
     epochs_per_summary = 1, epochs_per_checkpoint = 1, checkpoints_limit = Some 2\<rparr>"

definition cfg_cold :: config where
  "cfg_cold = \<lparr>epochs = 4, checkpoint_path = None,
     training_dir = Some ''t'', has_val = False,
     epochs_per_summary = 1, epochs_per_checkpoint = 1, checkpoints_limit = Some 2\<rparr>"

section \<open>Properties of the evaluating context manager\<close>

text \<open>
  C9, as amended. A network that was in training mode is in training mode after the block,
  whatever the block does and whether it returns or raises. For a network that was in
  evaluation mode the exit does nothing: the flag is what the block left, so it is the
  flag of before whenever the block leaves it as it received it. The block's exception
  is passed on.
\<close>

theorem evaluating_training_flag:
  "fst (evaluating block n) = fst (block (net_eval n)) \<and>
   (training n \<longrightarrow> training (snd (evaluating block n))) \<and>
   (\<not> training n \<longrightarrow>
      training (snd (evaluating block n)) = training (snd (block (net_eval n)))) \<and>
   (training (snd (block (net_eval n))) = training (net_eval n) \<longrightarrow>
      training (snd (evaluating block n)) = training n)"
  by (cases "block (net_eval n)") (auto simp: evaluating_def net_eval_def net_train_def)

theorem evaluating_training_flag_witness:
  "training (snd (evaluating block_raises \<lparr>training = True, params = 0\<rparr>)) \<and>
   fst (evaluating block_raises \<lparr>training = True, params = 0\<rparr>) = Some ''boom'' \<and>
   \<not> training (snd (evaluating block_raises \<lparr>training = False, params = 0\<rparr>))"
  using evaluating_training_flag [of block_raises "\<lparr>training = True, params = 0\<rparr>"]
    evaluating_training_flag [of block_raises "\<lparr>training = False, params = 0\<rparr>"]
  by (simp add: block_raises_def net_eval_def)

text \<open>
  C9 as stated fails: a network in evaluation mode whose block calls \<open>net.train()\<close> is in
  training mode after the block.
\<close>

theorem evaluating_eval_mode_counterexample:
  "training (snd (evaluating block_calls_train \<lparr>training = False, params = 0\<rparr>))
     \<noteq> training \<lparr>training = False, params = 0::nat\<rparr>"
  by (simp add: evaluating_def block_calls_train_def net_eval_def net_train_def)

section \<open>Properties of the normalisation\<close>

subsection \<open>Comprehensions\<close>

lemma collect_results_Inr:
  "collect_results rs = Inr ys \<longleftrightarrow> rs = map Inr ys"
proof (induction rs arbitrary: ys)
  case Nil
  show ?case by auto
next
  case (Cons r rs)
  show ?case
  proof (cases r)
    case (Inl e)
    then show ?thesis by auto
  next
    case (Inr y)
    show ?thesis
    proof (cases "collect_results rs")
      case (Inl e)
      have "rs \<noteq> map Inr zs" for zs
        using Cons.IH [of zs] Inl by auto
      then show ?thesis using Inl Inr by (cases ys) auto
    next
      case r2: (Inr zs)
      have rs: "rs = map Inr zs" using Cons.IH [of zs] r2 by simp
      show ?thesis using r2 Inr rs by (cases ys) (auto simp: inj_map_eq_map)
    qed
  qed
qed

lemma collect_results_Inl:
  "collect_results rs = Inl e \<Longrightarrow> Inl e \<in> set rs"
  by (induction rs) (auto split: sum.splits)

lemma collect_map_Inr:
  "collect_results (map f xs) = Inr ys \<longleftrightarrow> list_all2 (\<lambda>x y. f x = Inr y) xs ys"
proof -
  have "map f xs = map Inr ys \<longleftrightarrow> list_all2 (\<lambda>x y. f x = Inr y) xs ys"
    by (induction xs arbitrary: ys) (auto simp: list_all2_Cons1)
  then show ?thesis by (simp only: collect_results_Inr)
qed

lemma collect_case_Inr:
  "(case collect_results (map f xs) of Inl e \<Rightarrow> Inl e | Inr ws \<Rightarrow> Inr (C ws)) = Inr r \<longleftrightarrow>
     (\<exists>ws. r = C ws \<and> list_all2 (\<lambda>x w. f x = Inr w) xs ws)"
proof (cases "collect_results (map f xs)")
  case (Inl e)
  then have "\<not> list_all2 (\<lambda>x w. f x = Inr w) xs ws" for ws
    using collect_map_Inr [of f xs ws] by simp
  then show ?thesis using Inl by simp
next
  case (Inr zs)
  then have "list_all2 (\<lambda>x w. f x = Inr w) xs ws \<longleftrightarrow> ws = zs" for ws
    using collect_map_Inr [of f xs ws] by auto
  then show ?thesis using Inr by auto
qed

lemma collect_pairs_Inr:
  "(case collect_results
           (map (\<lambda>(k, v). case f v of Inl e \<Rightarrow> Inl e | Inr w \<Rightarrow> Inr (k, w)) kvs) of
      Inl e \<Rightarrow> Inl e | Inr kws \<Rightarrow> Inr (C kws)) = Inr r \<longleftrightarrow>
     (\<exists>kws. r = C kws \<and> list_all2 (\<lambda>kv kw. fst kw = fst kv \<and> f (snd kv) = Inr (snd kw)) kvs kws)"
proof -
  have pw: "(case kv of (k, v) \<Rightarrow> case f v of Inl e \<Rightarrow> Inl e | Inr w \<Rightarrow> Inr (k, w)) = Inr kw
      \<longleftrightarrow> fst kw = fst kv \<and> f (snd kv) = Inr (snd kw)" for kv kw
    by (cases kv; cases kw; cases "f (snd kv)") auto
  show ?thesis unfolding collect_case_Inr pw by (rule refl)
qed

lemma foldr_max_upper:
  "x \<in> set xs \<Longrightarrow> f x \<le> foldr max (map f xs) (0 :: nat)"
  by (induction xs) auto

subsection \<open>What normalize_item returns on each container\<close>

lemma normalize_item_dict:
  "normalize_item (PDict kvs) = Inr r \<longleftrightarrow>
     (\<exists>kws. r = PDict kws \<and>
        list_all2 (\<lambda>kv kw. fst kw = fst kv \<and> normalize_item (snd kv) = Inr (snd kw)) kvs kws)"
  by (simp only: normalize_item.simps collect_pairs_Inr)

lemma normalize_item_list:
  "normalize_item (PList vs) = Inr r \<longleftrightarrow>
     (\<exists>ws. r = PList ws \<and> list_all2 (\<lambda>v w. normalize_item v = Inr w) vs ws)"
  by (simp only: normalize_item.simps collect_case_Inr)

lemma normalize_item_tuple:
  "normalize_item (PTuple vs) = Inr r \<longleftrightarrow>
     (\<exists>ws. r = PTuple ws \<and> list_all2 (\<lambda>v w. normalize_item v = Inr w) vs ws)"
  by (simp only: normalize_item.simps collect_case_Inr)

lemma normalize_item_iter:
  "normalize_item (PIter vs) = Inr r \<longleftrightarrow>
     (\<exists>ws. r = PTuple ws \<and> list_all2 (\<lambda>v w. normalize_item v = Inr w) vs ws)"
  by (simp only: normalize_item.simps collect_case_Inr)

lemma list_all2_idem:
  assumes "list_all2 (\<lambda>v w. f v = Inr w) vs ws"
    and "\<And>v w. v \<in> set vs \<Longrightarrow> f v = Inr w \<Longrightarrow> f w = Inr w"
  shows "list_all2 (\<lambda>w w'. f w = Inr w') ws ws"
  using assms by (induction vs ws rule: list_all2_induct) auto

lemma normalize_item_idem:
  "normalize_item x = Inr y \<Longrightarrow> normalize_item y = Inr y"
proof (induction x arbitrary: y)
  case (PDict kvs)
  from PDict.prems obtain kws where y: "y = PDict kws"
    and all: "list_all2 (\<lambda>kv kw. fst kw = fst kv \<and> normalize_item (snd kv) = Inr (snd kw)) kvs kws"
    unfolding normalize_item_dict by blast
  have "list_all2 (\<lambda>kw kw'. fst kw' = fst kw \<and> normalize_item (snd kw) = Inr (snd kw')) kws kws"
    using all PDict.IH
  proof (induction kvs kws rule: list_all2_induct)
    case Nil
    show ?case by simp
  next
    case (Cons kv kvs kw kws)
    have "snd kv \<in> Basic_BNFs.snds kv" by (cases kv) simp
    then have "normalize_item (snd kw) = Inr (snd kw)"
      using Cons.hyps(1) Cons.prems [of kv "snd kv" "snd kw"] by simp
    moreover have "list_all2 (\<lambda>kw kw'. fst kw' = fst kw \<and> normalize_item (snd kw) = Inr (snd kw'))
        kws kws"
      using Cons.prems by (intro Cons.IH) auto
    ultimately show ?case by simp
  qed
  then show ?case unfolding y normalize_item_dict by blast
next
  case (PList vs)
  from PList.prems obtain ws where y: "y = PList ws"
    and all: "list_all2 (\<lambda>v w. normalize_item v = Inr w) vs ws"
    unfolding normalize_item_list by blast
  from list_all2_idem [OF all] PList.IH
  have "list_all2 (\<lambda>w w'. normalize_item w = Inr w') ws ws" by blast
  then show ?case unfolding y normalize_item_list by blast
next
  case (NdArray shape data)
  then show ?case by auto
next
  case (Tensor shape data g)
  then show ?case by (auto split: if_splits)
next
  case (PTuple vs)
  from PTuple.prems obtain ws where y: "y = PTuple ws"
    and all: "list_all2 (\<lambda>v w. normalize_item v = Inr w) vs ws"
    unfolding normalize_item_tuple by blast
  from list_all2_idem [OF all] PTuple.IH
  have "list_all2 (\<lambda>w w'. normalize_item w = Inr w') ws ws" by blast
  then show ?case unfolding y normalize_item_tuple by blast
next
  case (PStr s)
  then show ?case by (auto split: if_splits)
next
  case (PIter vs)
  from PIter.prems obtain ws where y: "y = PTuple ws"
    and all: "list_all2 (\<lambda>v w. normalize_item v = Inr w) vs ws"
    unfolding normalize_item_iter by blast
  from list_all2_idem [OF all] PIter.IH
  have "list_all2 (\<lambda>w w'. normalize_item w = Inr w') ws ws" by blast
  then show ?case unfolding y normalize_item_tuple by blast
next
  case (PScalar x)
  then show ?case by auto
qed

subsection \<open>The recursion limit\<close>

lemma str_never_returns:
  "normalize_item_within n (PStr (c # s)) = Inl RecursionError"
proof (induction n arbitrary: c s)
  case 0
  show ?case by simp
next
  case (Suc n)
  show ?case using Suc [of c "[]"] by simp
qed

lemma within_dict:
  "normalize_item_within (Suc n) (PDict kvs) = Inr r \<longleftrightarrow>
     (\<exists>kws. r = PDict kws \<and>
        list_all2 (\<lambda>kv kw. fst kw = fst kv \<and> normalize_item_within n (snd kv) = Inr (snd kw))
          kvs kws)"
  by (simp only: normalize_item_within.simps collect_pairs_Inr)

lemma within_list:
  "normalize_item_within (Suc n) (PList vs) = Inr r \<longleftrightarrow>
     (\<exists>ws. r = PList ws \<and> list_all2 (\<lambda>v w. normalize_item_within n v = Inr w) vs ws)"
  by (simp only: normalize_item_within.simps collect_case_Inr)

lemma within_tuple:
  "normalize_item_within (Suc n) (PTuple vs) = Inr r \<longleftrightarrow>
     (\<exists>ws. r = PTuple ws \<and> list_all2 (\<lambda>v w. normalize_item_within n v = Inr w) vs ws)"
  by (simp only: normalize_item_within.simps collect_case_Inr)

lemma within_iter:
  "normalize_item_within (Suc n) (PIter vs) = Inr r \<longleftrightarrow>
     (\<exists>ws. r = PTuple ws \<and> list_all2 (\<lambda>v w. normalize_item_within n v = Inr w) vs ws)"
  by (simp only: normalize_item_within.simps collect_case_Inr)

lemma within_returns:
  "normalize_item_within n (x :: 'n pyval) = Inr y \<Longrightarrow> normalize_item x = Inr y"
proof (induction n arbitrary: x y)
  case 0
  then show ?case by simp
next
  case (Suc n)
  have step: "list_all2 (\<lambda>v w. normalize_item_within n v = Inr w) vs ws \<Longrightarrow>
      list_all2 (\<lambda>v w. normalize_item v = Inr w) vs ws" for vs ws :: "'n pyval list"
    by (erule list_all2_mono) (simp add: Suc.IH)
  show ?case
  proof (cases x)
    case (PDict kvs)
    from Suc.prems obtain kws where y: "y = PDict kws"
      and all: "list_all2 (\<lambda>kv kw. fst kw = fst kv \<and> normalize_item_within n (snd kv) = Inr (snd kw))
          kvs kws"
      unfolding PDict within_dict by blast
    have "list_all2 (\<lambda>kv kw. fst kw = fst kv \<and> normalize_item (snd kv) = Inr (snd kw)) kvs kws"
      using all by (rule list_all2_mono) (simp add: Suc.IH)
    then show ?thesis unfolding PDict y normalize_item_dict by blast
  next
    case (PList vs)
    from Suc.prems obtain ws where y: "y = PList ws"
      and all: "list_all2 (\<lambda>v w. normalize_item_within n v = Inr w) vs ws"
      unfolding PList within_list by blast
    from step [OF all] show ?thesis unfolding PList y normalize_item_list by blast
  next
    case (NdArray shape data)
    then show ?thesis using Suc.prems by auto
  next
    case (Tensor shape data g)
    then show ?thesis using Suc.prems by (auto split: if_splits)
  next
    case (PTuple vs)
    from Suc.prems obtain ws where y: "y = PTuple ws"
      and all: "list_all2 (\<lambda>v w. normalize_item_within n v = Inr w) vs ws"
      unfolding PTuple within_tuple by blast
    from step [OF all] show ?thesis unfolding PTuple y normalize_item_tuple by blast
  next
    case (PStr s)
    show ?thesis
    proof (cases s)
      case Nil
      then show ?thesis using Suc.prems PStr by auto
    next
      case (Cons c s')
      have "normalize_item_within (Suc n) x = Inl RecursionError"
        unfolding PStr Cons by (rule str_never_returns)
      then show ?thesis using Suc.prems by simp
    qed
  next
    case (PIter vs)
    from Suc.prems obtain ws where y: "y = PTuple ws"
      and all: "list_all2 (\<lambda>v w. normalize_item_within n v = Inr w) vs ws"
      unfolding PIter within_iter by blast
    from step [OF all] show ?thesis unfolding PIter y normalize_item_iter by blast
  next
    case (PScalar a)
    then show ?thesis using Suc.prems by auto
  qed
qed

lemma returns_within:
  "normalize_item x = Inr y \<Longrightarrow> nesting x \<le> n \<Longrightarrow> normalize_item_within n x = Inr y"
proof (induction x arbitrary: y n)
  case (PDict kvs)
  from PDict.prems(2) obtain m where n: "n = Suc m"
    and m: "foldr max (map (\<lambda>(k, v). nesting v) kvs) 0 \<le> m"
    by (cases n) auto
  have deep: "nesting (snd kv) \<le> m" if "kv \<in> set kvs" for kv
    using foldr_max_upper [OF that, of "\<lambda>(k, v). nesting v"] m by (simp add: case_prod_unfold)
  from PDict.prems(1) obtain kws where y: "y = PDict kws"
    and all: "list_all2 (\<lambda>kv kw. fst kw = fst kv \<and> normalize_item (snd kv) = Inr (snd kw)) kvs kws"
    unfolding normalize_item_dict by blast
  have "list_all2 (\<lambda>kv kw. fst kw = fst kv \<and> normalize_item_within m (snd kv) = Inr (snd kw))
      kvs kws"
    using all PDict.IH deep
  proof (induction kvs kws rule: list_all2_induct)
    case Nil
    show ?case by simp
  next
    case (Cons kv kvs kw kws)
    have "snd kv \<in> Basic_BNFs.snds kv" by (cases kv) simp
    then have "normalize_item_within m (snd kv) = Inr (snd kw)"
      using Cons.hyps(1) Cons.prems(1) [of kv "snd kv" "snd kw" m] Cons.prems(2) [of kv] by simp
    moreover have "list_all2
        (\<lambda>kv kw. fst kw = fst kv \<and> normalize_item_within m (snd kv) = Inr (snd kw)) kvs kws"
    proof (rule Cons.IH)
      fix kv' v w n
      assume "kv' \<in> set kvs" "v \<in> Basic_BNFs.snds kv'" "normalize_item v = Inr w" "nesting v \<le> n"
      then show "normalize_item_within n v = Inr w"
        using Cons.prems(1) [of kv' v w n] by simp
    next
      fix kv'
      assume "kv' \<in> set kvs"
      then show "nesting (snd kv') \<le> m"
        using Cons.prems(2) [of kv'] by simp
    qed
    ultimately show ?case using Cons.hyps(1) by simp
  qed
  then show ?case unfolding n y within_dict by blast
next
  case (PList vs)
  from PList.prems(2) obtain m where n: "n = Suc m" and m: "foldr max (map nesting vs) 0 \<le> m"
    by (cases n) auto
  from PList.prems(1) obtain ws where y: "y = PList ws"
    and all: "list_all2 (\<lambda>v w. normalize_item v = Inr w) vs ws"
    unfolding normalize_item_list by blast
  have "list_all2 (\<lambda>v w. normalize_item_within m v = Inr w) vs ws"
    using all
  proof (rule list.rel_mono_strong)
    fix v w assume "v \<in> set vs" and "w \<in> set ws" and "normalize_item v = Inr w"
    then show "normalize_item_within m v = Inr w"
      using PList.IH [of v w m] foldr_max_upper [of v vs nesting] m by simp
  qed
  then show ?case unfolding n y within_list by blast
next
  case (NdArray shape data)
  then show ?case by (cases n) auto
next
  case (Tensor shape data g)
  then show ?case by (cases n) (auto split: if_splits)
next
  case (PTuple vs)
  from PTuple.prems(2) obtain m where n: "n = Suc m" and m: "foldr max (map nesting vs) 0 \<le> m"
    by (cases n) auto
  from PTuple.prems(1) obtain ws where y: "y = PTuple ws"
    and all: "list_all2 (\<lambda>v w. normalize_item v = Inr w) vs ws"
    unfolding normalize_item_tuple by blast
  have "list_all2 (\<lambda>v w. normalize_item_within m v = Inr w) vs ws"
    using all
  proof (rule list.rel_mono_strong)
    fix v w assume "v \<in> set vs" and "w \<in> set ws" and "normalize_item v = Inr w"
    then show "normalize_item_within m v = Inr w"
      using PTuple.IH [of v w m] foldr_max_upper [of v vs nesting] m by simp
  qed
  then show ?case unfolding n y within_tuple by blast
next
  case (PStr s)
  then show ?case by (cases n) (auto split: if_splits)
next
  case (PIter vs)
  from PIter.prems(2) obtain m where n: "n = Suc m" and m: "foldr max (map nesting vs) 0 \<le> m"
    by (cases n) auto
  from PIter.prems(1) obtain ws where y: "y = PTuple ws"
    and all: "list_all2 (\<lambda>v w. normalize_item v = Inr w) vs ws"
    unfolding normalize_item_iter by blast
  have "list_all2 (\<lambda>v w. normalize_item_within m v = Inr w) vs ws"
    using all
  proof (rule list.rel_mono_strong)
    fix v w assume "v \<in> set vs" and "w \<in> set ws" and "normalize_item v = Inr w"
    then show "normalize_item_within m v = Inr w"
      using PIter.IH [of v w m] foldr_max_upper [of v vs nesting] m by simp
  qed
  then show ?case unfolding n y within_iter by blast
next
  case (PScalar x)
  then show ?case by (cases n) auto
qed


text \<open>
  The function with \<open>RecursionError\<close> written in for a \<open>str\<close> and the function with the
  recursion limit as a budget agree: what the second returns the first returns, and what
  the first returns the second returns as soon as the budget covers the nesting of the
  value.
\<close>

lemma normalize_returns_idem: "normalize x = Inr y \<Longrightarrow> normalize y = Inr y"
  unfolding normalize_def by (rule normalize_item_idem)

subsection \<open>A str among the metrics\<close>

text \<open>
  C5. The property asks for \<open>normalize (normalize x) = normalize x\<close> on every supported
  value. The code does not give it on a value that holds a \<open>str\<close> which is not empty, such
  as \<^verbatim>\<open>{'name': 'loss'}\<close> or \<^verbatim>\<open>'a'\<close>: the first call already ends with \<open>RecursionError\<close>,
  whatever the recursion limit, so there is no result to normalise again. (On every value
  for which \<open>normalize\<close> returns, the result is a fixed point: \<open>normalize_returns_idem\<close>.)
\<close>

theorem normalize_str_raises:
  "normalize (PDict [(''name'', PStr ''loss'')]) = Inl RecursionError \<and>
   normalize (PStr ''a'') = Inl RecursionError \<and>
   normalize_item_within n (PDict [(''name'', PStr ''loss'')]) = Inl RecursionError \<and>
   normalize_item_within n (PStr ''a'') = Inl RecursionError"
proof -
  have loss: "normalize_item_within m (PStr ''loss'') = Inl RecursionError" for m
    by (rule str_never_returns)
  have "normalize_item_within n (PDict [(''name'', PStr ''loss'')]) = Inl RecursionError"
    by (cases n) (simp_all add: loss)
  moreover have "normalize_item_within n (PStr ''a'') = Inl RecursionError"
    by (rule str_never_returns)
  ultimately show ?thesis by (simp add: normalize_def)
qed

subsection \<open>Numeric containers\<close>

lemma squeeze_Nil_iff: "squeeze shape = [] \<longleftrightarrow> numel shape = 1"
  by (induction shape) (auto simp: squeeze_def numel_def)

lemma normalize_item_scalars:
  "list_all2 (\<lambda>v w. normalize_item v = Inr w) (map PScalar xs) (map PScalar xs)"
  by (induction xs) auto

text \<open>
  C4, as amended. A well-formed tensor of one element becomes the plain scalar that it
  holds. A tensor of any other size keeps its shape and its values and is detached. A numpy
  array is returned as it is, whatever its size. A list returns exactly when each of its
  elements does, and then it is the list of the normalised elements, of the same length and
  in the same order, whatever the elements are and also when there is only one; the same
  holds of a tuple, which stays a tuple. In particular a list or a tuple of plain scalars
  is returned with its length and its values.
\<close>

theorem normalize_numeric_containers:
  "(length data = numel shape \<and> numel shape = 1 \<longrightarrow>
      data = [hd data] \<and> normalize (Tensor shape data g) = Inr (PScalar (hd data))) \<and>
   (numel shape \<noteq> 1 \<longrightarrow> normalize (Tensor shape data g) = Inr (Tensor shape data False)) \<and>
   normalize (NdArray shape data) = Inr (NdArray shape data) \<and>
   (normalize (PList vs) = Inr r \<longleftrightarrow>
      (\<exists>ws. r = PList ws \<and> list_all2 (\<lambda>v w. normalize v = Inr w) vs ws)) \<and>
   (normalize (PTuple vs) = Inr r \<longleftrightarrow>
      (\<exists>ws. r = PTuple ws \<and> list_all2 (\<lambda>v w. normalize v = Inr w) vs ws)) \<and>
   normalize (PList (map PScalar xs)) = Inr (PList (map PScalar xs)) \<and>
   normalize (PTuple (map PScalar xs)) = Inr (PTuple (map PScalar xs))"
proof -
  have one: "data = [hd data]" if "length data = numel shape" "numel shape = 1"
    using that by (cases data) auto
  have tensor1: "length data = numel shape \<and> numel shape = 1 \<longrightarrow>
      data = [hd data] \<and> normalize (Tensor shape data g) = Inr (PScalar (hd data))"
    using one by (simp add: normalize_def squeeze_Nil_iff)
  have tensor2: "numel shape \<noteq> 1 \<longrightarrow>
      normalize (Tensor shape data g) = Inr (Tensor shape data False)"
    by (simp add: normalize_def squeeze_Nil_iff)
  have array: "normalize (NdArray shape data) = Inr (NdArray shape data)"
    by (simp add: normalize_def)
  have lst: "normalize (PList vs) = Inr r \<longleftrightarrow>
      (\<exists>ws. r = PList ws \<and> list_all2 (\<lambda>v w. normalize v = Inr w) vs ws)"
    unfolding normalize_def by (rule normalize_item_list)
  have tup: "normalize (PTuple vs) = Inr r \<longleftrightarrow>
      (\<exists>ws. r = PTuple ws \<and> list_all2 (\<lambda>v w. normalize v = Inr w) vs ws)"
    unfolding normalize_def by (rule normalize_item_tuple)
  have slst: "normalize (PList (map PScalar xs)) = Inr (PList (map PScalar xs))"
    unfolding normalize_def normalize_item_list using normalize_item_scalars by blast
  have stup: "normalize (PTuple (map PScalar xs)) = Inr (PTuple (map PScalar xs))"
    unfolding normalize_def normalize_item_tuple using normalize_item_scalars by blast
  from tensor1 tensor2 array lst tup slst stup show ?thesis by (intro conjI)
qed

theorem normalize_numeric_containers_witness:
  "normalize (Tensor [1, 1] [7::int] True) = Inr (PScalar 7) \<and>
   normalize (Tensor [2, 1] [7::int, 8] True) = Inr (Tensor [2, 1] [7, 8] False) \<and>
   normalize (NdArray [2] [7::int, 8]) = Inr (NdArray [2] [7, 8]) \<and>
   normalize (PList [PScalar (7::int), PScalar 8]) = Inr (PList [PScalar 7, PScalar 8]) \<and>
   normalize (PList [Tensor [1] [7::int] True, PTuple [PScalar 8]])
     = Inr (PList [PScalar 7, PTuple [PScalar 8]])"
proof -
  note a = normalize_numeric_containers
      [where data = "[7::int]" and shape = "[1, 1]" and g = True and xs = "[7::int, 8]"
         and vs = "[Tensor [1] [7::int] True, PTuple [PScalar 8]]"
         and r = "PList [PScalar 7, PTuple [PScalar 8]]"]
  note b = normalize_numeric_containers
      [where data = "[7::int, 8]" and shape = "[2, 1]" and g = True and xs = "[7::int, 8]"
         and vs = "[PScalar (8::int)]" and r = "PTuple [PScalar 8]"]
  have t1: "normalize (Tensor [1, 1] [7::int] True) = Inr (PScalar 7)"
    using a by (simp add: numel_def)
  have t2: "normalize (Tensor [2, 1] [7::int, 8] True) = Inr (Tensor [2, 1] [7, 8] False)"
    using b by (simp add: numel_def)
  have ar: "normalize (NdArray [2] [7::int, 8]) = Inr (NdArray [2] [7, 8])"
    using normalize_numeric_containers
      [where data = "[7::int, 8]" and shape = "[2]" and g = True and xs = "[] :: int list"
         and vs = "[] :: int pyval list" and r = "PList [] :: int pyval"]
    by (simp add: numel_def)
  have sl: "normalize (PList [PScalar (7::int), PScalar 8]) = Inr (PList [PScalar 7, PScalar 8])"
    using a by simp
  have inner: "normalize (PTuple [PScalar (8::int)]) = Inr (PTuple [PScalar 8])"
    using b by (simp add: normalize_def)
  have first: "normalize (Tensor [1] [7::int] True) = Inr (PScalar 7)"
    using normalize_numeric_containers
      [where data = "[7::int]" and shape = "[1]" and g = True and xs = "[] :: int list"
         and vs = "[] :: int pyval list" and r = "PList [] :: int pyval"]
    by (simp add: numel_def)
  have nested: "normalize (PList [Tensor [1] [7::int] True, PTuple [PScalar 8]])
      = Inr (PList [PScalar 7, PTuple [PScalar 8]])"
    using a first inner by simp
  from t1 t2 ar sl nested show ?thesis by (intro conjI)
qed

text \<open>
  C4 as stated fails: a numpy array of one element and a list of one element are not
  collapsed to the scalar.
\<close>

theorem normalize_one_element_counterexample:
  "normalize (NdArray [1] [7::int]) = Inr (NdArray [1] [7]) \<and>
   normalize (NdArray [1] [7::int]) \<noteq> Inr (PScalar 7) \<and>
   normalize (PList [PScalar (7::int)]) = Inr (PList [PScalar 7]) \<and>
   normalize (PList [PScalar (7::int)]) \<noteq> Inr (PScalar 7)"
  by (simp add: normalize_def)


section \<open>Properties of loading\<close>

lemma load_extra_lenient:
  "load_extra_modules False d ms = (None, map (\<lambda>(key, m). (key, dict_get d key)) ms)"
  by (induction ms) (auto simp: Let_def)

lemma load_extra_strict_missing:
  "key \<in> fst ` set ms \<Longrightarrow> dict_get d key = None \<Longrightarrow>
   \<exists>k \<in> fst ` set ms. dict_get d k = None \<and> fst (load_extra_modules True d ms) = Some (KeyError k)"
proof (induction ms)
  case Nil
  then show ?case by simp
next
  case (Cons km ms)
  obtain k0 m0 where km: "km = (k0, m0)" by (cases km)
  show ?case
  proof (cases "dict_get d k0 = None")
    case True
    then show ?thesis by (auto simp: km)
  next
    case False
    with Cons.prems km have "key \<in> fst ` set ms" by auto
    with Cons.IH Cons.prems obtain k where "k \<in> fst ` set ms" "dict_get d k = None"
      "fst (load_extra_modules True d ms) = Some (KeyError k)" by blast
    with False show ?thesis by (auto simp: km Let_def split: prod.splits)
  qed
qed

lemma load_checkpoint_loaded:
  "os_path_isfile fs p \<Longrightarrow> torch_load fs p = Inr c \<Longrightarrow>
   load_checkpoint args fs p w =
     (case restore_extra args c (restore_states args c w) of
        (Some err, w4) \<Rightarrow> (Inl err, w4)
      | (None, w4) \<Rightarrow> (Inr (step c, loss c), restore_amp args c w4))"
  by (simp add: load_checkpoint_def)

lemma modules_restore_states [simp]: "modules (restore_states args c w) = modules w"
  by (simp add: restore_states_def Let_def)

lemma rng_restore_states:
  "rng (restore_states args c w)
     = (if load_rnd_state args then restore_rng (rng_state c) (rng w) else rng w)"
  by (simp add: restore_states_def Let_def)

lemma rng_restore_extra [simp]: "rng (snd (restore_extra args c w)) = rng w"
  by (simp add: restore_extra_def split: option.splits prod.splits)

lemma rng_restore_amp [simp]: "rng (restore_amp args c w) = rng w"
  by (simp add: restore_amp_def)

lemma modules_restore_amp [simp]: "modules (restore_amp args c w) = modules w"
  by (simp add: restore_amp_def)

lemma restore_extra_lenient:
  "\<not> strict args \<Longrightarrow> fst (restore_extra args c w) = None"
  by (simp add: restore_extra_def load_extra_lenient split: option.splits)

lemma load_checkpoint_lenient:
  assumes "os_path_isfile fs p" and "torch_load fs p = Inr c" and "\<not> strict args"
  shows "fst (load_checkpoint args fs p w) = Inr (step c, loss c)"
proof -
  obtain e w4 where re: "restore_extra args c (restore_states args c w) = (e, w4)"
    by (cases "restore_extra args c (restore_states args c w)")
  with restore_extra_lenient [OF assms(3), of c "restore_states args c w"] have "e = None"
    by simp
  with re show ?thesis by (simp add: load_checkpoint_loaded [OF assms(1,2)])
qed

lemma load_checkpoint_rng:
  assumes "os_path_isfile fs p" and "torch_load fs p = Inr c"
  shows "rng (snd (load_checkpoint args fs p w))
           = (if load_rnd_state args then restore_rng (rng_state c) (rng w) else rng w)"
proof -
  obtain e w4 where re: "restore_extra args c (restore_states args c w) = (e, w4)"
    by (cases "restore_extra args c (restore_states args c w)")
  have "rng w4 = rng (restore_states args c w)"
    using rng_restore_extra [of args c "restore_states args c w"] re by simp
  then show ?thesis
    using re by (cases e) (simp_all add: load_checkpoint_loaded [OF assms] rng_restore_states)
qed

lemma load_without_rnd_state_keeps_rng:
  "\<not> load_rnd_state args \<Longrightarrow> rng (snd (load_checkpoint args fs p w)) = rng w"
proof (cases "os_path_isfile fs p")
  case False
  then show ?thesis by (simp add: load_checkpoint_def)
next
  case True
  assume nl: "\<not> load_rnd_state args"
  show ?thesis
  proof (cases "torch_load fs p")
    case (Inl e)
    with True show ?thesis by (simp add: load_checkpoint_def)
  next
    case (Inr c)
    with True nl show ?thesis by (simp add: load_checkpoint_rng)
  qed
qed

text \<open>
  C6. The checkpoint at the path is a file that loads, extra modules are requested and the
  saved state of one of them is absent. With \<open>strict\<close> the load ends with the
  \<open>KeyError\<close> of a requested key whose state is absent (the code's exception for the
  spec's MissingState) and returns no step and loss. Without \<open>strict\<close> the load
  completes and every module's \<open>load_state_dict\<close> has received what \<open>dict.get\<close> gave,
  which is \<open>None\<close> for the absent one.
\<close>

theorem load_checkpoint_missing_extension:
  assumes "os_path_isfile fs p" and "torch_load fs p = Inr c"
    and "with_extra args" and "modules w = Some ms"
    and "key \<in> fst ` set ms" and "dict_get (ext c) key = None"
  shows "(strict args \<longrightarrow>
            (\<exists>k \<in> fst ` set ms. dict_get (ext c) k = None \<and>
               fst (load_checkpoint args fs p w) = Inl (KeyError k))) \<and>
         (\<not> strict args \<longrightarrow>
            fst (load_checkpoint args fs p w) = Inr (step c, loss c) \<and>
            modules (snd (load_checkpoint args fs p w))
              = Some (map (\<lambda>(k, m). (k, dict_get (ext c) k)) ms) \<and>
            (key, None) \<in> set (map (\<lambda>(k, m). (k, dict_get (ext c) k)) ms))"
proof (intro conjI impI)
  note ld = load_checkpoint_loaded [OF assms(1,2), of args w]
  {
    assume s: "strict args"
    from load_extra_strict_missing [OF assms(5,6)]
    obtain k where k: "k \<in> fst ` set ms" "dict_get (ext c) k = None"
      "fst (load_extra_modules True (ext c) ms) = Some (KeyError k)" by blast
    obtain ms' where "load_extra_modules True (ext c) ms = (Some (KeyError k), ms')"
      using k(3) by (cases "load_extra_modules True (ext c) ms") simp
    then have "restore_extra args c (restore_states args c w)
        = (Some (KeyError k), (restore_states args c w)\<lparr>modules := Some ms'\<rparr>)"
      using assms(3,4) s by (simp add: restore_extra_def)
    then have "fst (load_checkpoint args fs p w) = Inl (KeyError k)"
      by (simp add: ld)
    with k show "\<exists>k \<in> fst ` set ms. dict_get (ext c) k = None \<and>
        fst (load_checkpoint args fs p w) = Inl (KeyError k)" by blast
  }
  {
    assume s: "\<not> strict args"
    have re: "restore_extra args c (restore_states args c w)
        = (None, (restore_states args c w)
             \<lparr>modules := Some (map (\<lambda>(k, m). (k, dict_get (ext c) k)) ms)\<rparr>)"
      using assms(3,4) s by (simp add: restore_extra_def load_extra_lenient)
    show "fst (load_checkpoint args fs p w) = Inr (step c, loss c)"
      by (simp add: ld re)
    show "modules (snd (load_checkpoint args fs p w))
        = Some (map (\<lambda>(k, m). (k, dict_get (ext c) k)) ms)"
      by (simp add: ld re)
    from assms(5,6) show "(key, None) \<in> set (map (\<lambda>(k, m). (k, dict_get (ext c) k)) ms)"
      by force
  }
qed

lemma fs_one_isfile: "os_path_isfile fs_one (''ckpts'', ''checkpoint_1.pth'')"
  by code_simp

lemma fs_one_load: "torch_load fs_one (''ckpts'', ''checkpoint_1.pth'') = Inr (ck 1 1 7)"
  by code_simp

theorem load_checkpoint_missing_extension_witness:
  "fst (load_checkpoint (resume_args\<lparr>strict := True\<rparr>) fs_one
          (''ckpts'', ''checkpoint_1.pth'') w_ext) = Inl (KeyError ''ema'') \<and>
   fst (load_checkpoint resume_args fs_one (''ckpts'', ''checkpoint_1.pth'') w_ext) = Inr (1, 1) \<and>
   modules (snd (load_checkpoint resume_args fs_one (''ckpts'', ''checkpoint_1.pth'') w_ext))
     = Some [(''ema'', None)]"
proof -
  have m: "modules w_ext = Some [(''ema'', Some 5)]" by (simp add: w_ext_def)
  have k: "''ema'' \<in> fst ` set [(''ema'', Some (5::nat))]" by simp
  have g: "dict_get (ext (ck 1 1 7)) ''ema'' = None" by (simp add: ck_def dict_get_def)
  have a1: "with_extra (resume_args\<lparr>strict := True\<rparr>)" and a2: "with_extra resume_args"
    by (simp_all add: resume_args_def)
  from load_checkpoint_missing_extension [OF fs_one_isfile fs_one_load a1 m k g]
    load_checkpoint_missing_extension [OF fs_one_isfile fs_one_load a2 m k g]
  show ?thesis by (simp add: resume_args_def ck_def dict_get_def)
qed

section \<open>Properties of saving\<close>

lemma resolve_plain: "plain_target fs p \<Longrightarrow> resolve_path (Suc k) fs p = Some p"
  by (auto simp: plain_target_def split: option.splits node.splits)

lemma resolve_40: "plain_target fs p \<Longrightarrow> resolve_path 40 fs p = Some p"
  using resolve_plain [of fs p 39] by simp

lemma write_file_plain:
  "plain_target fs p \<Longrightarrow> write_file fs p x = Inr (AList.update p (Regular x) fs)"
  by (auto simp: write_file_def resolve_40 plain_target_def split: option.splits node.splits)

lemma plain_target_update: "plain_target (AList.update p (Regular x) fs) p"
  by (simp add: plain_target_def update_conv')

lemma torch_save_plain:
  "plain_target fs p \<Longrightarrow>
   torch_save fs p c = Inr (AList.update p (Regular None) fs, AList.update p (Regular (Some c)) fs)"
  by (simp add: torch_save_def write_file_plain plain_target_update)

lemma stat_link:
  assumes "map_of fs (d, a) = Some (Symlink t)" and "map_of fs (d, t) = Some (Regular x)"
  shows "stat fs (d, a) = Some (Regular x)"
proof -
  have "resolve_path 40 fs (d, a) = Some (d, t)"
    using assms by (simp add: eval_nat_numeral)
  with assms(2) show ?thesis by (simp add: stat_def)
qed

text \<open>
  C1, as amended. \<open>save_checkpoint\<close> writes the record in place: \<open>torch.save\<close> is called
  on the checkpoint path itself, there is no temporary file and no rename. The statement
  holds under three conditions: the checkpoint path is free or holds a regular file (it is
  neither a symlink nor a directory), the alias name, if one is given, is not the base
  name of the checkpoint itself, and the save returns normally. Then the path first holds
  an incomplete file, then the complete record, which it still holds at the end; no path
  but this one and the alias changes in any state; and an alias, if one is asked for, ends
  as a link to the base name of the checkpoint and resolves to the new record. An alias
  that existed is replaced by \<open>os.unlink\<close> followed by \<open>os.symlink\<close>, so in the state
  between the two the alias does not exist.
\<close>

theorem save_checkpoint_in_place:
  assumes tr: "save_checkpoint_trace fs p c symlink_name = (None, states)"
    and pl: "plain_target fs p" and ne: "symlink_name \<noteq> Some (snd p)"
  shows "map_of (hd states) p = Some (Regular None) \<and>
         map_of (states ! 1) p = Some (Regular (Some c)) \<and>
         map_of (last states) p = Some (Regular (Some c)) \<and>
         list_all (\<lambda>s. others_untouched fs s p symlink_name) states \<and>
         (\<forall>a. symlink_name = Some a \<longrightarrow>
            map_of (last states) (fst p, a) = Some (Symlink (snd p)) \<and>
            stat (last states) (fst p, a) = Some (Regular (Some c)) \<and>
            (os_path_exists (states ! 1) (fst p, a) \<longrightarrow> map_of (states ! 2) (fst p, a) = None))"
proof -
  let ?fs1 = "AList.update p (Regular None) fs"
  let ?fs2 = "AList.update p (Regular (Some c)) fs"
  note ts = torch_save_plain [OF pl, of c]
  show ?thesis
  proof (cases symlink_name)
    case None
    with tr ts have "states = [?fs1, ?fs2]"
      by (simp add: save_checkpoint_trace_def)
    with None show ?thesis by (simp add: update_conv' others_untouched_def)
  next
    case (Some a)
    obtain d n where p: "p = (d, n)" by (cases p)
    from ne Some p have an: "a \<noteq> n" by simp
    have p2: "map_of ?fs2 p = Some (Regular (Some c))" by (simp add: update_conv')
    have u1: "others_untouched fs ?fs1 p symlink_name" "others_untouched fs ?fs2 p symlink_name"
      by (simp_all add: others_untouched_def update_conv')
    show ?thesis
    proof (cases "os_path_exists ?fs2 (d, a)")
      case True
      then obtain fs3 where r: "os_remove ?fs2 (d, a) = Inr fs3"
        using tr ts Some p
        by (cases "os_remove ?fs2 (d, a)") (simp_all add: save_checkpoint_trace_def Let_def)
      then have fs3: "fs3 = AList.delete (d, a) ?fs2"
        by (auto simp: os_remove_def split: option.splits node.splits)
      have gone: "map_of fs3 (d, a) = None" by (simp add: fs3 delete_conv')
      then have sl: "os_symlink n (d, a) fs3 = Inr (fs3 @ [((d, a), Symlink n)])"
        by (simp add: os_symlink_def)
      have st: "states = [?fs1, ?fs2, fs3, fs3 @ [((d, a), Symlink n)]]"
        using tr ts Some p True r sl by (simp add: save_checkpoint_trace_def Let_def)
      have p3: "map_of fs3 (d, n) = Some (Regular (Some c))"
        using an by (simp add: fs3 delete_conv' update_conv' p)
      have l4: "map_of (fs3 @ [((d, a), Symlink n)]) (d, a) = Some (Symlink n)"
        using gone by (simp add: map_add_def)
      have p4: "map_of (fs3 @ [((d, a), Symlink n)]) (d, n) = Some (Regular (Some c))"
        using p3 by (simp add: map_add_def)
      have u3: "others_untouched fs fs3 p symlink_name"
        by (simp add: others_untouched_def fs3 delete_conv' update_conv' Some p)
      have u4: "others_untouched fs (fs3 @ [((d, a), Symlink n)]) p symlink_name"
        by (auto simp: others_untouched_def fs3 delete_conv' update_conv' Some p map_add_def
            split: option.splits)
      show ?thesis
        using Some p st gone l4 p4 stat_link [OF l4 p4] u1 u3 u4
        by (simp add: update_conv')
    next
      case False
      then obtain fs4 where sl: "os_symlink n (d, a) ?fs2 = Inr fs4"
        using tr ts Some p
        by (cases "os_symlink n (d, a) ?fs2") (simp_all add: save_checkpoint_trace_def Let_def)
      then have fs4: "fs4 = ?fs2 @ [((d, a), Symlink n)]" and free: "map_of ?fs2 (d, a) = None"
        by (auto simp: os_symlink_def split: option.splits)
      have st: "states = [?fs1, ?fs2, fs4]"
        using tr ts Some p False sl by (simp add: save_checkpoint_trace_def Let_def)
      have l4: "map_of fs4 (d, a) = Some (Symlink n)"
        using free by (simp add: fs4 map_add_def)
      have p4: "map_of fs4 (d, n) = Some (Regular (Some c))"
        using p2 by (simp add: fs4 map_add_def p)
      have u4: "others_untouched fs fs4 p symlink_name"
        by (auto simp: others_untouched_def fs4 update_conv' Some p map_add_def
            split: option.splits)
      show ?thesis
        using Some p st l4 p4 stat_link [OF l4 p4] False u1 u4
        by (simp add: update_conv')
    qed
  qed
qed

lemma fs_one_trace:
  "save_checkpoint_trace fs_one (''ckpts'', ''checkpoint_2.pth'') (ck 2 (1 / 2) 8)
     (Some ''checkpoint_last.pth'')
   = (None,
      [[((''ckpts'', ''checkpoint_1.pth''), Regular (Some (ck 1 1 7))),
        ((''ckpts'', ''checkpoint_last.pth''), Symlink ''checkpoint_1.pth''),
        ((''ckpts'', ''checkpoint_2.pth''), Regular None)],
       [((''ckpts'', ''checkpoint_1.pth''), Regular (Some (ck 1 1 7))),
        ((''ckpts'', ''checkpoint_last.pth''), Symlink ''checkpoint_1.pth''),
        ((''ckpts'', ''checkpoint_2.pth''), Regular (Some (ck 2 (1 / 2) 8)))],
       [((''ckpts'', ''checkpoint_1.pth''), Regular (Some (ck 1 1 7))),
        ((''ckpts'', ''checkpoint_2.pth''), Regular (Some (ck 2 (1 / 2) 8)))],
       [((''ckpts'', ''checkpoint_1.pth''), Regular (Some (ck 1 1 7))),
        ((''ckpts'', ''checkpoint_2.pth''), Regular (Some (ck 2 (1 / 2) 8))),
        ((''ckpts'', ''checkpoint_last.pth''), Symlink ''checkpoint_2.pth'')]])"
  by code_simp

lemma fs_one_plain: "plain_target fs_one (''ckpts'', ''checkpoint_2.pth'')"
  by code_simp

theorem save_checkpoint_in_place_witness:
  "map_of (hd (snd (save_checkpoint_trace fs_one (''ckpts'', ''checkpoint_2.pth'')
        (ck 2 (1 / 2) 8) (Some ''checkpoint_last.pth'')))) (''ckpts'', ''checkpoint_2.pth'')
     = Some (Regular None) \<and>
   map_of (last (snd (save_checkpoint_trace fs_one (''ckpts'', ''checkpoint_2.pth'')
        (ck 2 (1 / 2) 8) (Some ''checkpoint_last.pth'')))) (''ckpts'', ''checkpoint_2.pth'')
     = Some (Regular (Some (ck 2 (1 / 2) 8))) \<and>
   stat (last (snd (save_checkpoint_trace fs_one (''ckpts'', ''checkpoint_2.pth'')
        (ck 2 (1 / 2) 8) (Some ''checkpoint_last.pth'')))) (''ckpts'', ''checkpoint_last.pth'')
     = Some (Regular (Some (ck 2 (1 / 2) 8))) \<and>
   os_path_exists (snd (save_checkpoint_trace fs_one (''ckpts'', ''checkpoint_2.pth'')
        (ck 2 (1 / 2) 8) (Some ''checkpoint_last.pth'')) ! 1) (''ckpts'', ''checkpoint_last.pth'') \<and>
   map_of (snd (save_checkpoint_trace fs_one (''ckpts'', ''checkpoint_2.pth'')
        (ck 2 (1 / 2) 8) (Some ''checkpoint_last.pth'')) ! 2) (''ckpts'', ''checkpoint_last.pth'')
     = None"
proof -
  have ne: "Some ''checkpoint_last.pth'' \<noteq> Some (snd (''ckpts'', ''checkpoint_2.pth''))"
    by simp
  have ex: "os_path_exists (snd (save_checkpoint_trace fs_one (''ckpts'', ''checkpoint_2.pth'')
        (ck 2 (1 / 2) 8) (Some ''checkpoint_last.pth'')) ! 1) (''ckpts'', ''checkpoint_last.pth'')"
    by code_simp
  from save_checkpoint_in_place [OF fs_one_trace fs_one_plain ne]
  show ?thesis using ex by (simp add: fs_one_trace)
qed

text \<open>
  C1 as stated fails: saving step 2 beside step 1 and its alias goes through a state in
  which the canonical name holds an incomplete file, and through a state in which the alias
  resolves to nothing.
\<close>

theorem save_checkpoint_not_atomic_counterexample:
  "\<not> never_partial
       (snd (save_checkpoint_trace fs_one (''ckpts'', ''checkpoint_2.pth'')
          (ck 2 (1 / 2) 8) (Some ''checkpoint_last.pth'')))
       (''ckpts'', ''checkpoint_2.pth'') \<and>
   \<not> alias_always_resolves
       (snd (save_checkpoint_trace fs_one (''ckpts'', ''checkpoint_2.pth'')
          (ck 2 (1 / 2) 8) (Some ''checkpoint_last.pth'')))
       (''ckpts'', ''checkpoint_last.pth'')"
  by code_simp


section \<open>Properties of the retention limit\<close>

lemma clamp_limit_Some: "clamp_limit (Some l) = Some (max 1 l)"
  by (simp add: clamp_limit_def)

lemma prune_to_limit_noop:
  "int (length h) \<le> lmt \<Longrightarrow> prune_to_limit lmt d fs h cp = (None, fs, h, cp)"
  by (cases h) auto

lemma prune_to_limit_drop:
  "prune_to_limit lmt d fs h cp = (None, fs', h', cp') \<Longrightarrow> 0 \<le> lmt \<Longrightarrow>
   h' = drop (length h - nat lmt) h"
proof (induction h arbitrary: fs cp)
  case Nil
  then show ?case by (simp split: if_splits)
next
  case (Cons x xs)
  show ?case
  proof (cases "int (length (x # xs)) > lmt")
    case False
    then have "length (x # xs) - nat lmt = 0" by simp
    with False Cons.prems(1) show ?thesis by auto
  next
    case True
    with Cons.prems obtain fs1 where r: "os_remove fs (d, x) = Inr fs1"
      and rec: "prune_to_limit lmt d fs1 xs (Some (d, x)) = (None, fs', h', cp')"
      by (cases "os_remove fs (d, x)") auto
    from Cons.IH [OF rec Cons.prems(2)] have "h' = drop (length xs - nat lmt) xs" .
    moreover from True Cons.prems(2) have "length (x # xs) - nat lmt = Suc (length xs - nat lmt)"
      by simp
    ultimately show ?thesis by simp
  qed
qed

lemma prune_to_limit_path_var:
  "cp \<noteq> None \<Longrightarrow> snd (snd (snd (prune_to_limit lmt d fs h cp))) \<noteq> None"
  by (induction h arbitrary: fs cp) (auto split: sum.splits)

lemma bootstrap_prune_path_var:
  "cp \<noteq> None \<Longrightarrow> snd (snd (snd (bootstrap_prune limit d fs h cp))) \<noteq> None"
  using prune_to_limit_path_var [of cp] by (cases limit) (simp_all add: bootstrap_prune_def)

lemma bootstrap_prune_bound:
  assumes "bootstrap_prune (Some lmt) d fs h cp = (None, fs', h', cp')" and "0 \<le> lmt"
  shows "h' = drop (length h - nat lmt) h" and "int (length h') \<le> lmt"
proof -
  from assms show d: "h' = drop (length h - nat lmt) h"
    using prune_to_limit_drop [of lmt d fs h cp fs' h' cp'] by (simp add: bootstrap_prune_def)
  from assms(2) show "int (length h') \<le> lmt" unfolding d by simp
qed

lemma os_remove_other:
  "os_remove fs p = Inr fs' \<Longrightarrow> q \<noteq> p \<Longrightarrow> map_of fs' q = map_of fs q"
  by (auto simp: os_remove_def delete_conv' split: option.splits node.splits)

lemma os_remove_removable: "removable fs p \<Longrightarrow> \<exists>fs'. os_remove fs p = Inr fs'"
  by (auto simp: removable_def os_remove_def split: option.splits node.splits)

lemma prune_to_limit_completes:
  "distinct h \<Longrightarrow> list_all (\<lambda>x. removable fs (d, x)) h \<Longrightarrow> 0 \<le> lmt \<Longrightarrow>
   fst (prune_to_limit lmt d fs h cp) = None"
proof (induction h arbitrary: fs cp)
  case Nil
  then show ?case by simp
next
  case (Cons x xs)
  show ?case
  proof (cases "int (length (x # xs)) > lmt")
    case False
    then show ?thesis by simp
  next
    case True
    from Cons.prems(2) have "removable fs (d, x)" by simp
    then obtain fs1 where r: "os_remove fs (d, x) = Inr fs1"
      using os_remove_removable by blast
    have "list_all (\<lambda>y. removable fs1 (d, y)) xs"
      unfolding list_all_iff
    proof
      fix y assume y: "y \<in> set xs"
      with Cons.prems(1) have "(d, y) \<noteq> (d, x)" by auto
      from os_remove_other [OF r this] have "map_of fs1 (d, y) = map_of fs (d, y)" .
      moreover from y Cons.prems(2) have "removable fs (d, y)" by (simp add: list_all_iff)
      ultimately show "removable fs1 (d, y)" by (simp add: removable_def)
    qed
    with Cons.IH [of fs1 "Some (d, x)"] Cons.prems(1,3)
    have "fst (prune_to_limit lmt d fs1 xs (Some (d, x))) = None" by simp
    with True r show ?thesis by simp
  qed
qed

lemma append_and_prune_length:
  assumes "1 \<le> lmt" and "int (length h) \<le> lmt"
  shows "int (length (snd (snd (append_and_prune (Some lmt) d fs h name)))) \<le> lmt"
  using assms by (auto simp: append_and_prune_def Let_def split: sum.splits)

lemma append_and_prune_drop:
  assumes "1 \<le> lmt" and "int (length h) \<le> lmt"
  shows "snd (snd (append_and_prune (Some lmt) d fs h name))
           = drop (length (h @ [name]) - nat lmt) (h @ [name])"
proof (cases "int (length (h @ [name])) > lmt")
  case True
  with assms have "length (h @ [name]) - nat lmt = 1" by simp
  then have "drop (length (h @ [name]) - nat lmt) (h @ [name]) = tl (h @ [name])"
    by (simp only: One_nat_def drop_Suc drop_0)
  moreover from True have "snd (snd (append_and_prune (Some lmt) d fs h name)) = tl (h @ [name])"
    by (cases "os_remove fs (d, hd (h @ [name]))") (simp_all add: append_and_prune_def Let_def)
  ultimately show ?thesis by simp
next
  case False
  then show ?thesis by (auto simp: append_and_prune_def Let_def)
qed

lemma append_and_prune_noop:
  "int (length h) < lmt \<Longrightarrow> append_and_prune (Some lmt) d fs h name = (None, fs, h @ [name])"
  by (simp add: append_and_prune_def Let_def)

lemma ascending_newest:
  "ascending_by_step h \<Longrightarrow> newest_by_step (take k h) (drop k h)"
proof -
  assume "ascending_by_step h"
  then have "sorted_wrt step_le (take k h @ drop k h)" by (simp add: ascending_by_step_def)
  then show ?thesis
    unfolding sorted_wrt_append newest_by_step_def list_all_iff by blast
qed

lemma scan_history_ascending: "ascending_by_step (scan_history fs d)"
proof -
  define listed where "listed = filter (\<lambda>ckpt. os_path_isfile fs (d, ckpt)) (os_listdir fs d)"
  define ps where "ps = List.map_filter
      (\<lambda>x. case checkpoint_regex_match x of None \<Rightarrow> None | Some k \<Rightarrow> Some (k, x)) listed"
  have keyed: "checkpoint_regex_match x = Some k" if "(k, x) \<in> set ps" for k x
    using that by (auto simp: ps_def map_filter_def split: option.splits)
  have "sorted (map fst (sort_key fst ps))" by simp
  then have "sorted_wrt (\<lambda>a b. fst a \<le> fst b) (sort_key fst ps)"
    by (simp add: sorted_wrt_map)
  then have "sorted_wrt (\<lambda>a b. step_le (snd a) (snd b)) (sort_key fst ps)"
  proof (rule sorted_wrt_mono_rel [rotated])
    fix a b assume "a \<in> set (sort_key fst ps)" "b \<in> set (sort_key fst ps)" "fst a \<le> fst b"
    then show "step_le (snd a) (snd b)"
      using keyed [of "fst a" "snd a"] keyed [of "fst b" "snd b"] by (simp add: step_le_def)
  qed
  then have "ascending_by_step (map snd (sort_key fst ps))"
    by (simp add: ascending_by_step_def sorted_wrt_map)
  then show ?thesis
    by (simp add: scan_history_def Let_def listed_def [symmetric] ps_def [symmetric]
        ascending_by_step_def)
qed

lemma isfile_removable: "os_path_isfile fs p \<Longrightarrow> removable fs p"
  by (auto simp: os_path_isfile_def stat_def removable_def eval_nat_numeral
      split: option.splits node.splits)

lemma map_snd_keyed:
  "map snd (List.map_filter (\<lambda>x. case m x of None \<Rightarrow> None | Some k \<Rightarrow> Some (k, x)) xs)
     = filter (\<lambda>x. m x \<noteq> None) xs"
  by (induction xs) (auto simp: map_filter_def split: option.splits)

lemma listdir_distinct: "distinct (map fst fs) \<Longrightarrow> distinct (os_listdir fs d)"
proof -
  assume dfs: "distinct (map fst fs)"
  let ?inside = "filter (\<lambda>(p, n). fst p = d) fs"
  have "distinct (map fst ?inside)" using dfs by (rule distinct_map_filter)
  moreover have "inj_on snd (set (map fst ?inside))"
    by (auto simp: inj_on_def)
  ultimately have "distinct (map snd (map fst ?inside))"
    by (simp only: distinct_map [of snd] simp_thms)
  then show ?thesis by (simp add: os_listdir_def)
qed

lemma scan_history_files:
  assumes "distinct (map fst fs)"
  shows "distinct (scan_history fs d)"
    and "list_all (\<lambda>x. removable fs (d, x)) (scan_history fs d)"
proof -
  define listed where "listed = filter (\<lambda>ckpt. os_path_isfile fs (d, ckpt)) (os_listdir fs d)"
  define ps where "ps = List.map_filter
      (\<lambda>x. case checkpoint_regex_match x of None \<Rightarrow> None | Some k \<Rightarrow> Some (k, x)) listed"
  have "ps = []" if "listed = []"
    using that by (simp add: ps_def)
  then have sh: "scan_history fs d = map snd (sort_key fst ps)"
    by (simp add: scan_history_def Let_def listed_def [symmetric] ps_def [symmetric])
  have ms: "map snd ps = filter (\<lambda>x. checkpoint_regex_match x \<noteq> None) listed"
    unfolding ps_def by (rule map_snd_keyed)
  have "distinct listed" using listdir_distinct [OF assms] by (simp add: listed_def)
  then have "distinct (map snd ps)" by (simp add: ms)
  then have "distinct ps" "inj_on snd (set ps)" by (simp_all add: distinct_map)
  then show "distinct (scan_history fs d)" by (simp add: sh distinct_map)
  have "set (scan_history fs d) = set (map snd ps)" by (simp add: sh)
  also have "\<dots> \<subseteq> set listed" by (auto simp: ms)
  finally have "\<forall>x \<in> set (scan_history fs d). os_path_isfile fs (d, x)"
    by (auto simp: listed_def)
  then show "list_all (\<lambda>x. removable fs (d, x)) (scan_history fs d)"
    by (auto simp: list_all_iff intro: isfile_removable)
qed

lemma bootstrap_prune_completes:
  assumes "distinct (map fst fs)"
  shows "fst (bootstrap_prune (clamp_limit (Some l)) d fs (scan_history fs d) cp) = None"
proof -
  have "0 \<le> max 1 l" by simp
  from prune_to_limit_completes
    [OF scan_history_files(1) [OF assms] scan_history_files(2) [OF assms] this]
  show ?thesis by (simp add: bootstrap_prune_def clamp_limit_Some)
qed

section \<open>Properties of the trainer's stages\<close>

lemma seed_best_on_resume_frame:
  "epoch0_ran (snd (seed_best_on_resume cfg cp st)) = epoch0_ran st"
  "epoch_offset (snd (seed_best_on_resume cfg cp st)) = epoch_offset st"
  "checkpoints_history (snd (seed_best_on_resume cfg cp st)) = checkpoints_history st"
proof -
  obtain r w where ld:
    "load_checkpoint best_args (files st) (checkpoint_best_path cfg) (live st) = (r, w)"
    by (cases "load_checkpoint best_args (files st) (checkpoint_best_path cfg) (live st)")
  show "epoch0_ran (snd (seed_best_on_resume cfg cp st)) = epoch0_ran st"
    using ld by (cases r) (simp_all add: seed_best_on_resume_def split: sum.splits)
  show "epoch_offset (snd (seed_best_on_resume cfg cp st)) = epoch_offset st"
    using ld by (cases r) (simp_all add: seed_best_on_resume_def split: sum.splits)
  show "checkpoints_history (snd (seed_best_on_resume cfg cp st)) = checkpoints_history st"
    using ld by (cases r) (simp_all add: seed_best_on_resume_def split: sum.splits)
qed

lemma seed_best_on_resume_rng:
  "rng (live (snd (seed_best_on_resume cfg cp st))) = rng (live st)"
proof (cases "os_path_exists (files st) (checkpoint_best_path cfg)")
  case True
  have nl: "\<not> load_rnd_state best_args" by (simp add: best_args_def)
  obtain r w where ld:
    "load_checkpoint best_args (files st) (checkpoint_best_path cfg) (live st) = (r, w)"
    by (cases "load_checkpoint best_args (files st) (checkpoint_best_path cfg) (live st)")
  with load_without_rnd_state_keeps_rng [OF nl, of "files st" "checkpoint_best_path cfg" "live st"]
  have "rng w = rng (live st)" by simp
  with True ld show ?thesis by (cases r) (simp_all add: seed_best_on_resume_def)
next
  case False
  then show ?thesis by (simp add: seed_best_on_resume_def split: sum.splits)
qed

lemma cold_start_history:
  "checkpoints_history (snd (cold_start cfg col st)) = checkpoints_history st @ [''checkpoint_0.pth'']"
proof -
  obtain l w where ep: "epoch0_pass col (live st) = (l, w)"
    by (cases "epoch0_pass col (live st)")
  let ?cp = "(checkpoint_dir_of cfg, ''checkpoint_0.pth'')"
  obtain e fs1 where sv: "save_checkpoint (files st) ?cp (checkpoint_dict w 0 l True True)
      (Some checkpoint_last_name) = (e, fs1)"
    by (cases "save_checkpoint (files st) ?cp (checkpoint_dict w 0 l True True)
      (Some checkpoint_last_name)")
  show ?thesis
    using ep sv by (cases e) (simp_all add: cold_start_def Let_def split: sum.splits)
qed

lemma seed_best_resumed:
  assumes "snd (snd (snd pruned)) \<noteq> None"
  shows "\<not> epoch0_ran (snd (seed_best cfg col w off l pruned))"
    and "epoch_offset (snd (seed_best cfg col w off l pruned)) = off"
    and "rng (live (snd (seed_best cfg col w off l pruned))) = rng w"
proof -
  obtain e fs2 h cp where pr: "pruned = (e, fs2, h, cp)" by (cases pruned)
  with assms obtain q where q: "cp = Some q" by auto
  show "\<not> epoch0_ran (snd (seed_best cfg col w off l pruned))"
    by (cases e) (simp_all add: seed_best_def pr q seed_best_on_resume_frame initial_state_def)
  show "epoch_offset (snd (seed_best cfg col w off l pruned)) = off"
    by (cases e) (simp_all add: seed_best_def pr q seed_best_on_resume_frame initial_state_def)
  show "rng (live (snd (seed_best cfg col w off l pruned))) = rng w"
    by (cases e) (simp_all add: seed_best_def pr q seed_best_on_resume_rng initial_state_def)
qed

lemma train_setup_resume:
  assumes cp: "checkpoint_path cfg = Some p"
  shows "\<not> epoch0_ran (snd (train_setup cfg col fs w))"
    and "fst (load_checkpoint resume_args fs p w) = Inr (s, l) \<Longrightarrow>
         epoch_offset (snd (train_setup cfg col fs w)) = s"
    and "rng (live (snd (train_setup cfg col fs w))) = rng (snd (load_checkpoint resume_args fs p w))"
proof -
  obtain r w1 where ld: "load_checkpoint resume_args fs p w = (r, w1)"
    by (cases "load_checkpoint resume_args fs p w")
  let ?pr = "bootstrap_prune (clamp_limit (checkpoints_limit cfg)) (checkpoint_dir_of cfg) fs
      (scan_history fs (checkpoint_dir_of cfg)) (Some p)"
  have pv: "snd (snd (snd ?pr)) \<noteq> None" by (rule bootstrap_prune_path_var) simp
  have ts: "train_setup cfg col fs w =
      (case r of Inl e \<Rightarrow> (Some e, initial_state cfg fs w1 0 (- 1))
       | Inr (off, l) \<Rightarrow> seed_best cfg col w1 off l ?pr)"
    using cp ld
    by (simp add: train_setup_def initial_load_def discard_previous_run_def Let_def
        split: sum.splits)
  show "\<not> epoch0_ran (snd (train_setup cfg col fs w))"
    by (cases r) (auto simp: ts initial_state_def seed_best_resumed [OF pv])
  show "epoch_offset (snd (train_setup cfg col fs w)) = s"
    if "fst (load_checkpoint resume_args fs p w) = Inr (s, l)"
    using that ld by (simp add: ts seed_best_resumed [OF pv])
  show "rng (live (snd (train_setup cfg col fs w))) = rng (snd (load_checkpoint resume_args fs p w))"
    using ld by (cases r) (auto simp: ts initial_state_def seed_best_resumed [OF pv])
qed

lemma checkpoint_due_frame:
  "epoch0_ran (snd (checkpoint_due cfg epoch l st)) = epoch0_ran st"
  "epoch_offset (snd (checkpoint_due cfg epoch l st)) = epoch_offset st"
  "checkpoints_history (snd (checkpoint_due cfg epoch l st)) =
     snd (snd (append_and_prune (clamp_limit (checkpoints_limit cfg)) (checkpoint_dir_of cfg)
       (files st) (checkpoints_history st) (checkpoint_file_name epoch)))"
proof -
  let ?d = "checkpoint_dir_of cfg"
  obtain e fs1 h where ap: "append_and_prune (clamp_limit (checkpoints_limit cfg)) ?d
      (files st) (checkpoints_history st) (checkpoint_file_name epoch) = (e, fs1, h)"
    by (cases "append_and_prune (clamp_limit (checkpoints_limit cfg)) ?d
      (files st) (checkpoints_history st) (checkpoint_file_name epoch)")
  obtain e2 fs2 where sv: "save_checkpoint fs1 (?d, last h)
      (checkpoint_dict (live st) epoch l True True) (Some checkpoint_last_name) = (e2, fs2)"
    by (cases "save_checkpoint fs1 (?d, last h)
      (checkpoint_dict (live st) epoch l True True) (Some checkpoint_last_name)")
  note defs = checkpoint_due_def Let_def ap sv
  show "epoch0_ran (snd (checkpoint_due cfg epoch l st)) = epoch0_ran st"
    by (cases e; cases e2) (simp_all add: defs split: sum.splits)
  show "epoch_offset (snd (checkpoint_due cfg epoch l st)) = epoch_offset st"
    by (cases e; cases e2) (simp_all add: defs split: sum.splits)
  show "checkpoints_history (snd (checkpoint_due cfg epoch l st)) =
     snd (snd (append_and_prune (clamp_limit (checkpoints_limit cfg)) ?d
       (files st) (checkpoints_history st) (checkpoint_file_name epoch)))"
    by (cases e; cases e2) (simp_all add: defs split: sum.splits)
qed

lemma checkpoint_due_promote:
  assumes "fst (checkpoint_due cfg epoch l st) = None"
  shows "checkpoint_best_data (snd (checkpoint_due cfg epoch l st)) =
           (if \<not> has_val cfg \<and> l \<le> snd (checkpoint_best_data st) then (epoch, l)
            else checkpoint_best_data st)"
  using assms
  by (auto simp: checkpoint_due_def Let_def split: prod.splits option.splits sum.splits if_splits)

lemma checkpoint_due_best_cases:
  "checkpoint_best_data (snd (checkpoint_due cfg epoch l st)) = checkpoint_best_data st \<or>
   l \<le> snd (checkpoint_best_data st) \<and>
     checkpoint_best_data (snd (checkpoint_due cfg epoch l st)) = (epoch, l)"
  by (auto simp: checkpoint_due_def Let_def split: prod.splits option.splits sum.splits)

lemma checkpoint_due_mono:
  "snd (checkpoint_best_data (snd (checkpoint_due cfg epoch l st))) \<le> snd (checkpoint_best_data st)"
  using checkpoint_due_best_cases [of cfg epoch l st] by auto

lemma validation_due_frame:
  "epoch0_ran (snd (validation_due cfg col epoch st)) = epoch0_ran st"
  "epoch_offset (snd (validation_due cfg col epoch st)) = epoch_offset st"
  "checkpoints_history (snd (validation_due cfg col epoch st)) = checkpoints_history st"
proof -
  obtain vl w where vp: "validation_pass col epoch (live st) = (vl, w)"
    by (cases "validation_pass col epoch (live st)")
  note defs = validation_due_def Let_def vp
  show "epoch0_ran (snd (validation_due cfg col epoch st)) = epoch0_ran st"
    by (simp add: defs split: prod.splits)
  show "epoch_offset (snd (validation_due cfg col epoch st)) = epoch_offset st"
    by (simp add: defs split: prod.splits)
  show "checkpoints_history (snd (validation_due cfg col epoch st)) = checkpoints_history st"
    by (simp add: defs split: prod.splits)
qed

lemma validation_due_best:
  "checkpoint_best_data (snd (validation_due cfg col epoch st)) =
     (if fst (validation_pass col epoch (live st)) \<le> snd (checkpoint_best_data st)
      then (epoch, fst (validation_pass col epoch (live st)))
      else checkpoint_best_data st)"
  by (auto simp: validation_due_def Let_def split: prod.splits)

lemma validation_due_mono:
  "snd (checkpoint_best_data (snd (validation_due cfg col epoch st))) \<le> snd (checkpoint_best_data st)"
  by (simp add: validation_due_best)

lemma epoch_body_stages:
  assumes "train_epoch col (e0 + 1) (live st) = (l, w)"
  shows "snd (epoch_body cfg col e0 st) = st\<lparr>live := w, last_loss := l\<rparr> \<or>
         snd (epoch_body cfg col e0 st)
           = snd (checkpoint_due cfg (e0 + 1) l (st\<lparr>live := w, last_loss := l\<rparr>)) \<or>
         snd (epoch_body cfg col e0 st)
           = snd (validation_due cfg col (e0 + 1) (st\<lparr>live := w, last_loss := l\<rparr>)) \<or>
         snd (epoch_body cfg col e0 st)
           = snd (validation_due cfg col (e0 + 1)
                (snd (checkpoint_due cfg (e0 + 1) l (st\<lparr>live := w, last_loss := l\<rparr>))))"
proof -
  let ?st1 = "st\<lparr>live := w, last_loss := l\<rparr>"
  obtain e2 st2 where cd: "checkpoint_due cfg (e0 + 1) l ?st1 = (e2, st2)"
    by (cases "checkpoint_due cfg (e0 + 1) l ?st1")
  show ?thesis
    using assms cd by (cases e2) (simp_all add: epoch_body_def Let_def)
qed

lemma epoch_body_frame:
  "epoch0_ran (snd (epoch_body cfg col e0 st)) = epoch0_ran st"
  "epoch_offset (snd (epoch_body cfg col e0 st)) = epoch_offset st"
proof -
  obtain l w where tr: "train_epoch col (e0 + 1) (live st) = (l, w)"
    by (cases "train_epoch col (e0 + 1) (live st)")
  from epoch_body_stages [OF tr, of cfg]
  show "epoch0_ran (snd (epoch_body cfg col e0 st)) = epoch0_ran st"
    by (elim disjE) (simp_all add: checkpoint_due_frame validation_due_frame)
  from epoch_body_stages [OF tr, of cfg]
  show "epoch_offset (snd (epoch_body cfg col e0 st)) = epoch_offset st"
    by (elim disjE) (simp_all add: checkpoint_due_frame validation_due_frame)
qed

lemma epoch_body_mono:
  "snd (checkpoint_best_data (snd (epoch_body cfg col e0 st))) \<le> snd (checkpoint_best_data st)"
proof -
  obtain l w where tr: "train_epoch col (e0 + 1) (live st) = (l, w)"
    by (cases "train_epoch col (e0 + 1) (live st)")
  let ?st1 = "st\<lparr>live := w, last_loss := l\<rparr>"
  have m2: "snd (checkpoint_best_data (snd (checkpoint_due cfg (e0 + 1) l ?st1)))
      \<le> snd (checkpoint_best_data st)"
    using checkpoint_due_mono [of cfg "e0 + 1" l ?st1] by simp
  have m3: "snd (checkpoint_best_data (snd (validation_due cfg col (e0 + 1) ?st1)))
      \<le> snd (checkpoint_best_data st)"
    using validation_due_mono [of cfg col "e0 + 1" ?st1] by simp
  have m4: "snd (checkpoint_best_data (snd (validation_due cfg col (e0 + 1)
      (snd (checkpoint_due cfg (e0 + 1) l ?st1))))) \<le> snd (checkpoint_best_data st)"
    using validation_due_mono [of cfg col "e0 + 1" "snd (checkpoint_due cfg (e0 + 1) l ?st1)"] m2
    by simp
  from epoch_body_stages [OF tr, of cfg] show ?thesis
    using m2 m3 m4 by (elim disjE) simp_all
qed

lemma run_epochs_mono:
  "snd (checkpoint_best_data (snd (run_epochs cfg col es st))) \<le> snd (checkpoint_best_data st)"
proof (induction es arbitrary: st)
  case Nil
  show ?case by simp
next
  case (Cons e0 es)
  obtain e st' where eb: "epoch_body cfg col e0 st = (e, st')"
    by (cases "epoch_body cfg col e0 st")
  have m: "snd (checkpoint_best_data st') \<le> snd (checkpoint_best_data st)"
    using epoch_body_mono [of cfg col e0 st] eb by simp
  show ?case
  proof (cases e)
    case None
    with eb Cons.IH [of st'] m show ?thesis by simp
  next
    case (Some err)
    with eb m show ?thesis by simp
  qed
qed

lemma run_epochs_frame:
  "epoch0_ran (snd (run_epochs cfg col es st)) = epoch0_ran st \<and>
   epoch_offset (snd (run_epochs cfg col es st)) = epoch_offset st"
proof (induction es arbitrary: st)
  case Nil
  show ?case by simp
next
  case (Cons e0 es)
  obtain e st' where eb: "epoch_body cfg col e0 st = (e, st')"
    by (cases "epoch_body cfg col e0 st")
  with epoch_body_frame [of cfg col e0 st]
  have f: "epoch0_ran st' = epoch0_ran st" "epoch_offset st' = epoch_offset st" by simp_all
  show ?case
    using eb f Cons.IH [of st'] by (cases e) simp_all
qed

lemma train_frame:
  "epoch0_ran (snd (train cfg col fs w)) = epoch0_ran (snd (train_setup cfg col fs w)) \<and>
   epoch_offset (snd (train cfg col fs w)) = epoch_offset (snd (train_setup cfg col fs w))"
proof -
  obtain e st where ts: "train_setup cfg col fs w = (e, st)"
    by (cases "train_setup cfg col fs w")
  show ?thesis
    using ts run_epochs_frame [of cfg col "[epoch_offset st..epochs cfg - 1]" st]
    by (cases e) (simp_all add: train_def)
qed

lemma checkpoint_due_history_bound:
  assumes "checkpoints_limit cfg = Some l"
    and "int (length (checkpoints_history st)) \<le> max 1 l"
  shows "int (length (checkpoints_history (snd (checkpoint_due cfg epoch lss st)))) \<le> max 1 l"
  using assms append_and_prune_length [of "max 1 l" "checkpoints_history st"]
  by (simp add: checkpoint_due_frame clamp_limit_Some)

lemma epoch_body_history_bound:
  assumes lm: "checkpoints_limit cfg = Some l"
    and inv: "int (length (checkpoints_history st)) \<le> max 1 l"
  shows "int (length (checkpoints_history (snd (epoch_body cfg col e0 st)))) \<le> max 1 l"
proof -
  obtain lss w where tr: "train_epoch col (e0 + 1) (live st) = (lss, w)"
    by (cases "train_epoch col (e0 + 1) (live st)")
  let ?st1 = "st\<lparr>live := w, last_loss := lss\<rparr>"
  from inv have inv1: "int (length (checkpoints_history ?st1)) \<le> max 1 l" by simp
  note cd = checkpoint_due_history_bound [OF lm inv1, of "e0 + 1" lss]
  from epoch_body_stages [OF tr, of cfg] show ?thesis
    using inv cd by (elim disjE) (simp_all add: validation_due_frame)
qed

lemma run_epochs_history_bound:
  assumes lm: "checkpoints_limit cfg = Some l"
  shows "int (length (checkpoints_history st)) \<le> max 1 l \<Longrightarrow>
         int (length (checkpoints_history (snd (run_epochs cfg col es st)))) \<le> max 1 l"
proof (induction es arbitrary: st)
  case Nil
  then show ?case by simp
next
  case (Cons e0 es)
  obtain e st' where eb: "epoch_body cfg col e0 st = (e, st')"
    by (cases "epoch_body cfg col e0 st")
  with epoch_body_history_bound [OF lm Cons.prems, of col e0]
  have inv': "int (length (checkpoints_history st')) \<le> max 1 l" by simp
  show ?case
    using eb inv' Cons.IH [OF inv'] by (cases e) simp_all
qed

lemma listdir_rmtree: "os_listdir (shutil_rmtree fs d) d = []"
  by (auto simp: os_listdir_def shutil_rmtree_def filter_empty_conv)

lemma listdir_rmtree_other: "os_listdir fs d = [] \<Longrightarrow> os_listdir (shutil_rmtree fs d') d = []"
  by (auto simp: os_listdir_def shutil_rmtree_def filter_empty_conv)

lemma scan_history_cold_start:
  "checkpoint_path cfg = None \<Longrightarrow>
   scan_history (discard_previous_run cfg fs) (checkpoint_dir_of cfg) = []"
  by (simp add: scan_history_def discard_previous_run_def listdir_rmtree listdir_rmtree_other)

lemma train_setup_history_bound:
  assumes lm: "checkpoints_limit cfg = Some l"
    and ok: "fst (train_setup cfg col fs w) = None"
  shows "int (length (checkpoints_history (snd (train_setup cfg col fs w)))) \<le> max 1 l"
proof -
  obtain r w1 where il: "initial_load cfg fs w = (r, w1)" by (cases "initial_load cfg fs w")
  let ?fs1 = "discard_previous_run cfg fs"
  let ?d = "checkpoint_dir_of cfg"
  let ?pr = "bootstrap_prune (Some (max 1 l)) ?d ?fs1 (scan_history ?fs1 ?d) (checkpoint_path cfg)"
  obtain e fs2 h cp where pr: "?pr = (e, fs2, h, cp)" by (cases ?pr)
  show ?thesis
  proof (cases r)
    case (Inl err)
    with il ok show ?thesis by (simp add: train_setup_def)
  next
    case (Inr sl)
    obtain s lss where sl: "sl = (s, lss)" by (cases sl)
    have ts: "train_setup cfg col fs w = seed_best cfg col w1 s lss (e, fs2, h, cp)"
      using il Inr sl lm pr by (simp add: train_setup_def Let_def clamp_limit_Some)
    from ok ts have e: "e = None" by (cases e) (simp_all add: seed_best_def)
    from bootstrap_prune_bound(2) [OF pr [unfolded e]] have hb: "int (length h) \<le> max 1 l"
      by simp
    show ?thesis
    proof (cases cp)
      case (Some q)
      then show ?thesis using hb by (simp add: ts seed_best_def e seed_best_on_resume_frame)
    next
      case None
      have "checkpoint_path cfg = None"
      proof (rule ccontr)
        assume "checkpoint_path cfg \<noteq> None"
        from bootstrap_prune_path_var [OF this, of "Some (max 1 l)" ?d ?fs1
            "scan_history ?fs1 ?d"] pr None
        show False by simp
      qed
      then have "scan_history ?fs1 ?d = []" by (rule scan_history_cold_start)
      with pr have "h = []" by (simp add: bootstrap_prune_def split: if_splits)
      with None show ?thesis by (simp add: ts seed_best_def e cold_start_history)
    qed
  qed
qed

lemma train_history_bound:
  assumes lm: "checkpoints_limit cfg = Some l"
    and ok: "fst (train_setup cfg col fs w) = None"
  shows "int (length (checkpoints_history (snd (train cfg col fs w)))) \<le> max 1 l"
proof -
  obtain e st where ts: "train_setup cfg col fs w = (e, st)"
    by (cases "train_setup cfg col fs w")
  with ok have e: "e = None" by simp
  from train_setup_history_bound [OF lm ok] ts
  have "int (length (checkpoints_history st)) \<le> max 1 l" by simp
  from run_epochs_history_bound [OF lm this, of col "[epoch_offset st..epochs cfg - 1]"]
  show ?thesis by (simp add: train_def ts e)
qed

lemma limit_free:
  "checkpoint_dir_of (cfg\<lparr>checkpoints_limit := x\<rparr>) = checkpoint_dir_of cfg"
  "summary_dir_of (cfg\<lparr>checkpoints_limit := x\<rparr>) = summary_dir_of cfg"
  "checkpoint_best_path (cfg\<lparr>checkpoints_limit := x\<rparr>) = checkpoint_best_path cfg"
  "initial_load (cfg\<lparr>checkpoints_limit := x\<rparr>) = initial_load cfg"
  "initial_state (cfg\<lparr>checkpoints_limit := x\<rparr>) = initial_state cfg"
  by (simp_all add: checkpoint_dir_of_def summary_dir_of_def checkpoint_best_path_def
      initial_load_def initial_state_def fun_eq_iff)

lemma limit_free_stages:
  "discard_previous_run (cfg\<lparr>checkpoints_limit := x\<rparr>) fs = discard_previous_run cfg fs"
  "seed_best_on_resume (cfg\<lparr>checkpoints_limit := x\<rparr>) p st = seed_best_on_resume cfg p st"
  "cold_start (cfg\<lparr>checkpoints_limit := x\<rparr>) col st = cold_start cfg col st"
  "validation_due (cfg\<lparr>checkpoints_limit := x\<rparr>) col epoch st = validation_due cfg col epoch st"
  by (simp_all add: discard_previous_run_def seed_best_on_resume_def cold_start_def
      validation_due_def limit_free Let_def
      cong: prod.case_cong option.case_cong sum.case_cong if_cong)

lemma limit_free_seed_best:
  "seed_best (cfg\<lparr>checkpoints_limit := x\<rparr>) col w off l pruned = seed_best cfg col w off l pruned"
  by (simp add: seed_best_def limit_free limit_free_stages Let_def
      cong: prod.case_cong option.case_cong)

lemma clamp_limit_max: "clamp_limit (Some (max 1 l)) = clamp_limit (Some l)"
  by (simp add: clamp_limit_def)

lemma train_setup_clamped:
  "train_setup (cfg\<lparr>checkpoints_limit := Some l\<rparr>) col fs w
     = train_setup (cfg\<lparr>checkpoints_limit := Some (max 1 l)\<rparr>) col fs w"
  by (simp add: train_setup_def limit_free limit_free_stages limit_free_seed_best clamp_limit_max
      Let_def cong: prod.case_cong sum.case_cong)

lemma checkpoint_due_clamped:
  "checkpoint_due (cfg\<lparr>checkpoints_limit := Some l\<rparr>) epoch lss st
     = checkpoint_due (cfg\<lparr>checkpoints_limit := Some (max 1 l)\<rparr>) epoch lss st"
  by (simp add: checkpoint_due_def limit_free clamp_limit_max Let_def
      cong: prod.case_cong option.case_cong sum.case_cong if_cong)

lemma epoch_body_clamped:
  "epoch_body (cfg\<lparr>checkpoints_limit := Some l\<rparr>) col e0 st
     = epoch_body (cfg\<lparr>checkpoints_limit := Some (max 1 l)\<rparr>) col e0 st"
  by (simp add: epoch_body_def limit_free_stages checkpoint_due_clamped [where cfg = cfg and l = l]
      Let_def cong: prod.case_cong option.case_cong if_cong)

lemma run_epochs_clamped:
  "run_epochs (cfg\<lparr>checkpoints_limit := Some l\<rparr>) col es st
     = run_epochs (cfg\<lparr>checkpoints_limit := Some (max 1 l)\<rparr>) col es st"
  by (induction es arbitrary: st)
    (simp_all add: epoch_body_clamped [where cfg = cfg and l = l]
       cong: prod.case_cong option.case_cong)

section \<open>The claims about the trainer\<close>

text \<open>
  C2, as amended. The limit in force is \<open>max 1 l\<close>. A bootstrap prune that returns leaves
  the last \<open>max 1 l\<close> entries of the history, in list order, and pruning its result again
  changes nothing; on the history scanned from a directory with distinct names it does
  return. On a history within the limit the bootstrap prune is a no-op, and appending a
  name on a checkpoint write leaves the last \<open>max 1 l\<close> entries of the extended list, with
  nothing evicted while the list is below the limit. The entries kept are the most recent
  by step whenever the list that is pruned ascends by step, which the scanned history does;
  eviction itself goes by position in the list. In a run under a limit whose setup
  succeeds, the history is within the limit after the setup and at the end of the run.
\<close>

theorem retention_after_prune:
  "(bootstrap_prune (clamp_limit (Some l)) d fs h cp = (None, fs', h', cp') \<longrightarrow>
      h' = drop (length h - nat (max 1 l)) h \<and> int (length h') \<le> max 1 l \<and>
      (ascending_by_step h \<longrightarrow> newest_by_step (take (length h - nat (max 1 l)) h) h') \<and>
      bootstrap_prune (clamp_limit (Some l)) d fs' h' cp' = (None, fs', h', cp')) \<and>
   (int (length h) \<le> max 1 l \<longrightarrow>
      bootstrap_prune (clamp_limit (Some l)) d fs h cp = (None, fs, h, cp) \<and>
      snd (snd (append_and_prune (clamp_limit (Some l)) d fs h name))
        = drop (length (h @ [name]) - nat (max 1 l)) (h @ [name]) \<and>
      int (length (snd (snd (append_and_prune (clamp_limit (Some l)) d fs h name)))) \<le> max 1 l \<and>
      (ascending_by_step (h @ [name]) \<longrightarrow>
         newest_by_step (take (length (h @ [name]) - nat (max 1 l)) (h @ [name]))
           (snd (snd (append_and_prune (clamp_limit (Some l)) d fs h name))))) \<and>
   (int (length h) < max 1 l \<longrightarrow>
      append_and_prune (clamp_limit (Some l)) d fs h name = (None, fs, h @ [name])) \<and>
   ascending_by_step (scan_history fs d) \<and>
   (distinct (map fst fs) \<longrightarrow>
      fst (bootstrap_prune (clamp_limit (Some l)) d fs (scan_history fs d) cp) = None) \<and>
   (checkpoints_limit cfg = Some l \<and> fst (train_setup cfg col disk w) = None \<longrightarrow>
      int (length (checkpoints_history (snd (train_setup cfg col disk w)))) \<le> max 1 l \<and>
      int (length (checkpoints_history (snd (train cfg col disk w)))) \<le> max 1 l)"
proof (intro conjI impI)
  let ?L = "max 1 l"
  have L: "0 \<le> ?L" "1 \<le> ?L" by simp_all
  {
    assume bp: "bootstrap_prune (clamp_limit (Some l)) d fs h cp = (None, fs', h', cp')"
    then have bp': "bootstrap_prune (Some ?L) d fs h cp = (None, fs', h', cp')"
      by (simp add: clamp_limit_Some)
    from bootstrap_prune_bound [OF bp' L(1)]
    show eq: "h' = drop (length h - nat ?L) h" and len: "int (length h') \<le> ?L" .
    show "newest_by_step (take (length h - nat ?L) h) h'" if "ascending_by_step h"
      unfolding eq using that by (rule ascending_newest)
    from len show "bootstrap_prune (clamp_limit (Some l)) d fs' h' cp' = (None, fs', h', cp')"
      by (simp add: clamp_limit_Some bootstrap_prune_def prune_to_limit_noop)
  }
  {
    assume len: "int (length h) \<le> ?L"
    then show "bootstrap_prune (clamp_limit (Some l)) d fs h cp = (None, fs, h, cp)"
      by (simp add: clamp_limit_Some bootstrap_prune_def prune_to_limit_noop)
    from append_and_prune_drop [OF L(2) len, of d fs name]
    show eq: "snd (snd (append_and_prune (clamp_limit (Some l)) d fs h name))
        = drop (length (h @ [name]) - nat ?L) (h @ [name])"
      by (simp add: clamp_limit_Some)
    from append_and_prune_length [OF L(2) len, of d fs name]
    show "int (length (snd (snd (append_and_prune (clamp_limit (Some l)) d fs h name)))) \<le> ?L"
      by (simp add: clamp_limit_Some)
    show "newest_by_step (take (length (h @ [name]) - nat ?L) (h @ [name]))
        (snd (snd (append_and_prune (clamp_limit (Some l)) d fs h name)))"
      if "ascending_by_step (h @ [name])"
      unfolding eq using that by (rule ascending_newest)
  }
  {
    assume "int (length h) < ?L"
    then show "append_and_prune (clamp_limit (Some l)) d fs h name = (None, fs, h @ [name])"
      by (simp add: clamp_limit_Some append_and_prune_noop)
  }
  show "ascending_by_step (scan_history fs d)" by (rule scan_history_ascending)
  {
    assume "distinct (map fst fs)"
    then show "fst (bootstrap_prune (clamp_limit (Some l)) d fs (scan_history fs d) cp) = None"
      by (rule bootstrap_prune_completes)
  }
  {
    assume a: "checkpoints_limit cfg = Some l \<and> fst (train_setup cfg col disk w) = None"
    then show "int (length (checkpoints_history (snd (train_setup cfg col disk w)))) \<le> ?L"
      by (simp add: train_setup_history_bound)
    from a show "int (length (checkpoints_history (snd (train cfg col disk w)))) \<le> ?L"
      by (simp add: train_history_bound)
  }
qed

lemma fs_three_scan:
  "scan_history fs_three ''t/ckpts''
     = [''checkpoint_8.pth'', ''checkpoint_9.pth'', ''checkpoint_10.pth'']"
  by code_simp

lemma fs_three_prune:
  "bootstrap_prune (clamp_limit (Some 2)) ''t/ckpts'' fs_three
     [''checkpoint_8.pth'', ''checkpoint_9.pth'', ''checkpoint_10.pth''] None
   = (None,
      [((''t/ckpts'', ''checkpoint_10.pth''), Regular (Some (ck 10 2 9))),
       ((''t/ckpts'', ''checkpoint_9.pth''), Regular (Some (ck 9 2 8)))],
      [''checkpoint_9.pth'', ''checkpoint_10.pth''],
      Some (''t/ckpts'', ''checkpoint_8.pth''))"
  by code_simp

lemma fs_three_distinct: "distinct (map fst fs_three)"
  by code_simp

lemma cfg_resume_setup: "fst (train_setup cfg_resume col0 fs_resume w0) = None"
  by code_simp

theorem retention_after_prune_witness:
  "newest_by_step [''checkpoint_8.pth''] [''checkpoint_9.pth'', ''checkpoint_10.pth''] \<and>
   snd (snd (append_and_prune (clamp_limit (Some 2)) ''t/ckpts'' fs_three
      [''checkpoint_9.pth'', ''checkpoint_10.pth''] ''checkpoint_11.pth''))
     = [''checkpoint_10.pth'', ''checkpoint_11.pth''] \<and>
   append_and_prune (clamp_limit (Some 2)) ''t/ckpts'' fs_three
      [''checkpoint_10.pth''] ''checkpoint_11.pth''
     = (None, fs_three, [''checkpoint_10.pth'', ''checkpoint_11.pth'']) \<and>
   newest_by_step [''checkpoint_9.pth''] [''checkpoint_10.pth'', ''checkpoint_11.pth''] \<and>
   fst (bootstrap_prune (clamp_limit (Some 2)) ''t/ckpts'' fs_three
      (scan_history fs_three ''t/ckpts'') None) = None \<and>
   int (length (checkpoints_history (snd (train cfg_resume col0 fs_resume w0)))) \<le> 2"
proof -
  have asc': "ascending_by_step [''checkpoint_9.pth'', ''checkpoint_10.pth'', ''checkpoint_11.pth'']"
    by code_simp
  let ?h3 = "[''checkpoint_8.pth'', ''checkpoint_9.pth'', ''checkpoint_10.pth'']"
  let ?fs2 = "[((''t/ckpts'', ''checkpoint_10.pth''), Regular (Some (ck 10 2 9))),
       ((''t/ckpts'', ''checkpoint_9.pth''), Regular (Some (ck 9 2 8)))]"
  have asc: "ascending_by_step ?h3"
    using scan_history_ascending [of fs_three "''t/ckpts''"] by (simp add: fs_three_scan)
  have lim: "checkpoints_limit cfg_resume = Some 2" by (simp add: cfg_resume_def)
  note a = retention_after_prune [where l = 2 and d = "''t/ckpts''" and fs = fs_three
      and h = ?h3 and cp = None and fs' = ?fs2
      and h' = "[''checkpoint_9.pth'', ''checkpoint_10.pth'']"
      and cp' = "Some (''t/ckpts'', ''checkpoint_8.pth'')"
      and cfg = cfg_resume and col = col0 and disk = fs_resume and w = w0
      and name = "''checkpoint_11.pth''"]
  note b = retention_after_prune [where l = 2 and d = "''t/ckpts''" and fs = fs_three
      and h = "[''checkpoint_9.pth'', ''checkpoint_10.pth'']" and name = "''checkpoint_11.pth''"
      and cp = None and fs' = fs_three and h' = "[]" and cp' = None
      and cfg = cfg_resume and col = col0 and disk = fs_resume and w = w0]
  note c = retention_after_prune [where l = 2 and d = "''t/ckpts''" and fs = fs_three
      and h = "[''checkpoint_10.pth'']" and name = "''checkpoint_11.pth''"
      and cp = None and fs' = fs_three and h' = "[]" and cp' = None
      and cfg = cfg_resume and col = col0 and disk = fs_resume and w = w0]
  have 1: "newest_by_step [''checkpoint_8.pth''] [''checkpoint_9.pth'', ''checkpoint_10.pth'']"
    using a asc fs_three_prune by simp
  have 2: "snd (snd (append_and_prune (clamp_limit (Some 2)) ''t/ckpts'' fs_three
      [''checkpoint_9.pth'', ''checkpoint_10.pth''] ''checkpoint_11.pth''))
     = [''checkpoint_10.pth'', ''checkpoint_11.pth'']"
    using b by simp
  have 3: "append_and_prune (clamp_limit (Some 2)) ''t/ckpts'' fs_three
      [''checkpoint_10.pth''] ''checkpoint_11.pth''
     = (None, fs_three, [''checkpoint_10.pth'', ''checkpoint_11.pth''])"
    using c by simp
  have 4: "fst (bootstrap_prune (clamp_limit (Some 2)) ''t/ckpts'' fs_three
      (scan_history fs_three ''t/ckpts'') None) = None"
    using a fs_three_distinct by blast
  have 5: "int (length (checkpoints_history (snd (train cfg_resume col0 fs_resume w0)))) \<le> 2"
    using a lim cfg_resume_setup by simp
  have hl: "int (length [''checkpoint_9.pth'', ''checkpoint_10.pth'']) \<le> max 1 2" by simp
  have asc'': "ascending_by_step
      ([''checkpoint_9.pth'', ''checkpoint_10.pth''] @ [''checkpoint_11.pth''])"
    using asc' by simp
  note b2 = b [THEN conjunct2, THEN conjunct1, THEN mp, OF hl]
  from b2 [THEN conjunct2, THEN conjunct2, THEN conjunct2, THEN mp, OF asc'']
  have 6: "newest_by_step [''checkpoint_9.pth''] [''checkpoint_10.pth'', ''checkpoint_11.pth'']"
    by (simp add: 2)
  from 1 2 3 4 5 6 show ?thesis by blast
qed

text \<open>
  C2 as stated fails: resuming from step 3 under limit 2 beside the steps 9 and 10 of an
  earlier run, the checkpoint write of epoch 4 evicts step 9 and keeps step 4, so the
  survivors are not the two most recent by step.
\<close>

theorem retention_by_step_counterexample:
  "checkpoints_history (snd (train cfg_resume col0 fs_resume w0))
     = [''checkpoint_10.pth'', ''checkpoint_4.pth''] \<and>
   map_of (files (snd (train cfg_resume col0 fs_resume w0))) (''t/ckpts'', ''checkpoint_9.pth'')
     = None \<and>
   \<not> newest_by_step [''checkpoint_9.pth''] [''checkpoint_10.pth'', ''checkpoint_4.pth'']"
  by code_simp

text \<open>
  C3. A checkpoint write that completes without a validation set, and every validation
  pass, replace the best pointer by the candidate's step and loss if the candidate's loss
  is at most the best loss, a tie included, and leave it otherwise. So the best loss never
  grows: not over a checkpoint write, an epoch or any sequence of epochs, whether they
  complete or raise.
\<close>

theorem best_pointer_promotion:
  "(fst (checkpoint_due cfg epoch l st) = None \<longrightarrow>
      checkpoint_best_data (snd (checkpoint_due cfg epoch l st)) =
        (if \<not> has_val cfg \<and> l \<le> snd (checkpoint_best_data st) then (epoch, l)
         else checkpoint_best_data st)) \<and>
   checkpoint_best_data (snd (validation_due cfg col epoch st)) =
     (if fst (validation_pass col epoch (live st)) \<le> snd (checkpoint_best_data st)
      then (epoch, fst (validation_pass col epoch (live st)))
      else checkpoint_best_data st) \<and>
   snd (checkpoint_best_data (snd (checkpoint_due cfg epoch l st))) \<le> snd (checkpoint_best_data st) \<and>
   snd (checkpoint_best_data (snd (epoch_body cfg col e0 st))) \<le> snd (checkpoint_best_data st) \<and>
   snd (checkpoint_best_data (snd (run_epochs cfg col es st))) \<le> snd (checkpoint_best_data st)"
  using checkpoint_due_promote [of cfg epoch l st] validation_due_best [of cfg col epoch st]
    checkpoint_due_mono [of cfg epoch l st] epoch_body_mono [of cfg col e0 st]
    run_epochs_mono [of cfg col es st]
  by blast

lemma cfg_cold_setup_best:
  "checkpoint_best_data (snd (train_setup cfg_cold col0 [] w0)) = (0, 7)"
  by code_simp

lemma cfg_cold_first_checkpoint:
  "fst (checkpoint_due cfg_cold 1 5 (snd (train_setup cfg_cold col0 [] w0))) = None"
  by code_simp

lemma cfg_cold_run:
  "checkpoint_best_data (snd (run_epochs cfg_cold col0 [0, 1, 2, 3]
     (snd (train_setup cfg_cold col0 [] w0)))) = (3, 3)"
  by code_simp

theorem best_pointer_promotion_witness:
  "checkpoint_best_data (snd (checkpoint_due cfg_cold 1 5 (snd (train_setup cfg_cold col0 [] w0))))
     = (1, 5) \<and>
   checkpoint_best_data (snd (run_epochs cfg_cold col0 [0, 1, 2, 3]
     (snd (train_setup cfg_cold col0 [] w0)))) = (3, 3) \<and>
   snd (checkpoint_best_data (snd (run_epochs cfg_cold col0 [0, 1, 2, 3]
     (snd (train_setup cfg_cold col0 [] w0))))) \<le> 7"
proof -
  have nv: "\<not> has_val cfg_cold" by (simp add: cfg_cold_def)
  from best_pointer_promotion [of cfg_cold 1 5 "snd (train_setup cfg_cold col0 [] w0)"
      col0 0 "[0, 1, 2, 3]"]
  show ?thesis
    using nv cfg_cold_first_checkpoint cfg_cold_run by (simp add: cfg_cold_setup_best)
qed

text \<open>
  C7. When a resume checkpoint is given and it is a file that loads, \<open>epoch_offset\<close> is
  the step recorded in it, the loop of a setup that succeeds runs over
  \<open>range(step, epochs)\<close>, and the cold-start pass is executed neither in the setup nor
  later.
\<close>

theorem resume_starts_at_recorded_step:
  assumes "checkpoint_path cfg = Some p" and "os_path_isfile fs p" and "torch_load fs p = Inr c"
  shows "epoch_offset (snd (train_setup cfg col fs w)) = step c \<and>
         \<not> epoch0_ran (snd (train_setup cfg col fs w)) \<and>
         \<not> epoch0_ran (snd (train cfg col fs w)) \<and>
         (fst (train_setup cfg col fs w) = None \<longrightarrow>
            train cfg col fs w
              = run_epochs cfg col [step c..epochs cfg - 1] (snd (train_setup cfg col fs w)))"
proof -
  have ns: "\<not> strict resume_args" by (simp add: resume_args_def)
  from load_checkpoint_lenient [OF assms(2,3) ns]
  have ld: "fst (load_checkpoint resume_args fs p w) = Inr (step c, loss c)" .
  from train_setup_resume(2) [OF assms(1) ld]
  have off: "epoch_offset (snd (train_setup cfg col fs w)) = step c" .
  from train_setup_resume(1) [OF assms(1)]
  have e0: "\<not> epoch0_ran (snd (train_setup cfg col fs w))" .
  with train_frame [of cfg col fs w] have e1: "\<not> epoch0_ran (snd (train cfg col fs w))"
    by simp
  have run: "train cfg col fs w
      = run_epochs cfg col [step c..epochs cfg - 1] (snd (train_setup cfg col fs w))"
    if "fst (train_setup cfg col fs w) = None"
    using that off by (cases "train_setup cfg col fs w") (simp add: train_def)
  from off e0 e1 run show ?thesis by blast
qed

lemma fs_resume_isfile: "os_path_isfile fs_resume (''run'', ''checkpoint_3.pth'')"
  by code_simp

lemma fs_resume_load: "torch_load fs_resume (''run'', ''checkpoint_3.pth'') = Inr (ck 3 1 7)"
  by code_simp

theorem resume_starts_at_recorded_step_witness:
  "epoch_offset (snd (train_setup cfg_resume col0 fs_resume w0)) = 3 \<and>
   \<not> epoch0_ran (snd (train cfg_resume col0 fs_resume w0)) \<and>
   train cfg_resume col0 fs_resume w0
     = run_epochs cfg_resume col0 [3] (snd (train_setup cfg_resume col0 fs_resume w0))"
proof -
  have cp: "checkpoint_path cfg_resume = Some (''run'', ''checkpoint_3.pth'')"
    by (simp add: cfg_resume_def)
  have ep: "[step (ck 3 1 7)..epochs cfg_resume - 1] = [3]"
    by (simp add: ck_def cfg_resume_def upto.simps)
  note t = resume_starts_at_recorded_step [OF cp fs_resume_isfile fs_resume_load, of col0 w0]
  from t have 1: "epoch_offset (snd (train_setup cfg_resume col0 fs_resume w0)) = 3"
    by (simp add: ck_def)
  from t have 2: "\<not> epoch0_ran (snd (train cfg_resume col0 fs_resume w0))"
    by blast
  from t cfg_resume_setup have "train cfg_resume col0 fs_resume w0
     = run_epochs cfg_resume col0 [step (ck 3 1 7)..epochs cfg_resume - 1]
         (snd (train_setup cfg_resume col0 fs_resume w0))"
    by blast
  then have 3: "train cfg_resume col0 fs_resume w0
     = run_epochs cfg_resume col0 [3] (snd (train_setup cfg_resume col0 fs_resume w0))"
    by (simp only: ep)
  from 1 2 3 show ?thesis by blast
qed

text \<open>
  C10. The best checkpoint is read with \<open>load_rnd_state=False\<close>, and such a load leaves
  the generators as they are. So does the whole seeding of the best pointer on a resume,
  and after the setup of a resumed run the generators hold the states restored from the
  resume checkpoint.
\<close>

theorem best_read_keeps_rng:
  assumes "checkpoint_path cfg = Some p" and "os_path_isfile fs p" and "torch_load fs p = Inr c"
  shows "\<not> load_rnd_state best_args \<and>
         rng (snd (load_checkpoint best_args disk (checkpoint_best_path cfg) w')) = rng w' \<and>
         rng (live (snd (seed_best_on_resume cfg q st))) = rng (live st) \<and>
         rng (live (snd (train_setup cfg col fs w))) = restore_rng (rng_state c) (rng w)"
proof -
  have nl: "\<not> load_rnd_state best_args" by (simp add: best_args_def)
  have lr: "load_rnd_state resume_args" by (simp add: resume_args_def)
  have "rng (live (snd (train_setup cfg col fs w))) = rng (snd (load_checkpoint resume_args fs p w))"
    by (rule train_setup_resume(3) [OF assms(1)])
  also have "\<dots> = restore_rng (rng_state c) (rng w)"
    using load_checkpoint_rng [OF assms(2,3), of resume_args w] lr by simp
  finally show ?thesis
    using nl load_without_rnd_state_keeps_rng [OF nl, of disk "checkpoint_best_path cfg" w']
      seed_best_on_resume_rng [of cfg q st]
    by simp
qed

lemma fs_resume_best: "os_path_exists fs_resume (checkpoint_best_path cfg_resume)"
  by code_simp

lemma fs_resume_best_loads:
  "fst (load_checkpoint best_args fs_resume (checkpoint_best_path cfg_resume) w0) = Inr (2, 1 / 2)"
  by code_simp

theorem best_read_keeps_rng_witness:
  "os_path_exists fs_resume (checkpoint_best_path cfg_resume) \<and>
   fst (load_checkpoint best_args fs_resume (checkpoint_best_path cfg_resume) w0) = Inr (2, 1 / 2) \<and>
   rng (snd (load_checkpoint best_args fs_resume (checkpoint_best_path cfg_resume) w0)) = rng w0 \<and>
   rng (live (snd (train_setup cfg_resume col0 fs_resume w0)))
     = \<lparr>python = 7, numpy = 7, torch = 7, torch_cuda = None\<rparr>"
proof -
  have cp: "checkpoint_path cfg_resume = Some (''run'', ''checkpoint_3.pth'')"
    by (simp add: cfg_resume_def)
  from best_read_keeps_rng [OF cp fs_resume_isfile fs_resume_load,
      of fs_resume w0 "(''run'', ''checkpoint_3.pth'')"
        "snd (train_setup cfg_resume col0 fs_resume w0)" col0 w0]
  show ?thesis
    using fs_resume_best fs_resume_best_loads by (simp add: ck_def restore_rng_def w0_def)
qed

text \<open>
  C8, as amended. A limit below one raises nothing: it is replaced by one, and the setup
  and the whole run are those of the limit one.
\<close>

theorem invalid_limit_is_clamped:
  "clamp_limit (Some l) = Some (max 1 l) \<and>
   train_setup (cfg\<lparr>checkpoints_limit := Some l\<rparr>) col fs w
     = train_setup (cfg\<lparr>checkpoints_limit := Some (max 1 l)\<rparr>) col fs w \<and>
   train (cfg\<lparr>checkpoints_limit := Some l\<rparr>) col fs w
     = train (cfg\<lparr>checkpoints_limit := Some (max 1 l)\<rparr>) col fs w"
  by (simp add: train_def train_setup_clamped [where cfg = cfg and l = l]
      run_epochs_clamped [where cfg = cfg and l = l] clamp_limit_Some
      cong: prod.case_cong option.case_cong)

text \<open>
  C8 as stated fails: with the limit zero a cold start completes its setup without an
  exception, the limit in force is one, and the epoch loop runs and appends the checkpoint
  of epoch 1. The run ends there, as every run under the limit one does: the write of
  epoch 1 has evicted the target of the alias, \<open>os.path.exists\<close> is false for the
  dangling alias, and \<open>os.symlink\<close> finds the name taken.
\<close>

theorem invalid_limit_counterexample:
  "fst (train_setup (cfg_cold\<lparr>checkpoints_limit := Some 0\<rparr>) col0 [] w0) = None \<and>
   clamp_limit (checkpoints_limit (cfg_cold\<lparr>checkpoints_limit := Some 0\<rparr>)) = Some 1 \<and>
   checkpoints_history (snd (train (cfg_cold\<lparr>checkpoints_limit := Some 0\<rparr>) col0 [] w0))
     = [''checkpoint_1.pth''] \<and>
   fst (train (cfg_cold\<lparr>checkpoints_limit := Some 0\<rparr>) col0 [] w0)
     = Some (FileExistsError (''t/ckpts'', ''checkpoint_last.pth''))"
  by code_simp


end
